theory Spec2Isabelle
  imports Complex_Main "HOL-Library.Multiset"
begin

section \<open>FUDGE-guided decoding (src/models/fudge/fudge_inference.py)\<close>

text \<open>
  Conventions of the embedding.
  \<^item> A one-dimensional tensor of scores is a list. The batch dimension of the source is
    always 1 (\<open>tokenizer.encode(..., return_tensors="pt")\<close> gives shape
    \<open>[1, seq_len]\<close>), so a score tensor of shape \<open>[1, n]\<close> is a list of length \<open>n\<close>.
    Token tensors keep their rank where the source concatenates them (type \<open>tensor\<close>).
  \<^item> Tensor entries are real numbers; rounding and NaN are outside the model. The one
    non-finite value the source writes itself, \<open>float('-inf')\<close>, is the constructor
    \<open>NegInf\<close> of the type \<open>logit\<close>.
  \<^item> Token ids and vocabulary positions are natural numbers.
  \<^item> Every exception is a value of the type \<open>error\<close>; a function that can raise
    returns \<open>error + 'a\<close>.
  \<^item> \<open>torch.sort\<close>, \<open>torch.topk\<close>, \<open>torch.softmax\<close>, \<open>torch.cumsum\<close>,
    \<open>torch.cat\<close>, \<open>Tensor.scatter\<close> and \<open>torch.multinomial\<close> are library calls; they
    are modelled by their documented behaviour. The order in which \<open>torch.sort\<close> and
    \<open>torch.topk\<close> return equal entries is not fixed by the library: it is a parameter
    of the model (type \<open>tie_order\<close>), and the properties are proved for every order the
    library may return.
\<close>

subsection \<open>Errors and extended scores\<close>

text \<open>
  \<open>TopkOutOfRange\<close>, \<open>InvalidMultinomial\<close>, \<open>CatDimensionMismatch\<close> and
  \<open>CatSizeMismatch\<close> are the \<open>RuntimeError\<close>s of \<open>torch.topk\<close>,
  \<open>torch.multinomial\<close> and \<open>torch.cat\<close>; \<open>UnknownClassName\<close> and
  \<open>TargetClassOutOfRange\<close> are the two \<open>ValueError\<close>s of the constructor.
\<close>

datatype error =
    IndexError
  | NameError string
  | TopkOutOfRange
  | InvalidMultinomial
  | CatDimensionMismatch
  | CatSizeMismatch
  | UnknownClassName string "string list"
  | TargetClassOutOfRange int

datatype logit = NegInf | Fin real

instantiation logit :: linorder
begin

fun less_eq_logit :: "logit \<Rightarrow> logit \<Rightarrow> bool" where
  "less_eq_logit NegInf y = True"
| "less_eq_logit (Fin x) NegInf = False"
| "less_eq_logit (Fin x) (Fin y) = (x \<le> y)"

fun less_logit :: "logit \<Rightarrow> logit \<Rightarrow> bool" where
  "less_logit x NegInf = False"
| "less_logit NegInf (Fin y) = True"
| "less_logit (Fin x) (Fin y) = (x < y)"

instance
proof
  fix x y z :: logit
  show "(x < y) = (x \<le> y \<and> \<not> y \<le> x)"
    by (cases x; cases y) auto
  show "x \<le> x"
    by (cases x) auto
  show "x \<le> y \<Longrightarrow> y \<le> z \<Longrightarrow> x \<le> z"
    by (cases x; cases y; cases z) auto
  show "x \<le> y \<Longrightarrow> y \<le> x \<Longrightarrow> x = y"
    by (cases x; cases y) auto
  show "x \<le> y \<or> y \<le> x"
    by (cases x; cases y) auto
qed

end

subsection \<open>Tensor operations used by the source\<close>

text \<open>\<open>exp\<close> on extended scores: \<open>exp(-inf) = 0\<close>.\<close>

fun exp_logit :: "logit \<Rightarrow> real" where
  "exp_logit NegInf = 0"
| "exp_logit (Fin x) = exp x"

text \<open>\<open>torch.softmax(xs, dim=-1)\<close>.\<close>

definition softmax :: "logit list \<Rightarrow> real list" where
  "softmax xs = (let es = map exp_logit xs; s = sum_list es in map (\<lambda>e. e / s) es)"

text \<open>\<open>torch.cumsum(xs, dim=-1)\<close>: entry \<open>i\<close> is the sum of the entries \<open>0..i\<close>.\<close>

fun cumsum_from :: "real \<Rightarrow> real list \<Rightarrow> real list" where
  "cumsum_from acc [] = []"
| "cumsum_from acc (x # xs) = (acc + x) # cumsum_from (acc + x) xs"

definition cumsum :: "real list \<Rightarrow> real list" where
  "cumsum xs = cumsum_from 0 xs"

text \<open>
  The order of equal entries. \<open>sort_order T xs\<close> is the index tensor that
  \<open>torch.sort(xs, descending=True)\<close> returns. \<open>torch.topk(xs, k)\<close> returns the \<open>k\<close>
  largest entries in descending order; any such selection is the first \<open>k\<close> places of
  some descending arrangement of all positions, and \<open>topk_order T xs k\<close> is that
  arrangement (it may differ from the one of \<open>torch.sort\<close> and from one \<open>k\<close> to
  another).
\<close>

record tie_order =
  sort_order :: "logit list \<Rightarrow> nat list"
  topk_order :: "logit list \<Rightarrow> nat \<Rightarrow> nat list"

text \<open>
  What the library guarantees of such an index list: it holds every position of \<open>xs\<close>
  once, and the entries read in its order never increase.
\<close>

definition descending_order :: "logit list \<Rightarrow> nat list \<Rightarrow> bool" where
  "descending_order xs idx \<longleftrightarrow>
     length idx = length xs \<and> distinct idx \<and> set idx = {..<length xs}
     \<and> sorted (rev (map ((!) xs) idx))"

definition torch_order :: "tie_order \<Rightarrow> bool" where
  "torch_order T \<longleftrightarrow>
     (\<forall>xs. descending_order xs (sort_order T xs))
     \<and> (\<forall>xs k. descending_order xs (topk_order T xs k))"

text \<open>
  One order the library may return: equal entries in order of position (a stable
  descending sort).
\<close>

definition argsort_desc :: "logit list \<Rightarrow> nat list" where
  "argsort_desc xs = rev (sort_key (\<lambda>i. xs ! i) (rev [0..<length xs]))"

definition lowest_first :: tie_order where
  "lowest_first = \<lparr> sort_order = argsort_desc, topk_order = (\<lambda>xs k. argsort_desc xs) \<rparr>"

text \<open>
  The index tensor of \<open>torch.topk(xs, k)\<close>. It raises a RuntimeError when \<open>k\<close> is
  negative or exceeds the length.
\<close>

definition topk_indices :: "tie_order \<Rightarrow> logit list \<Rightarrow> int \<Rightarrow> error + nat list" where
  "topk_indices T xs k =
     (if k < 0 \<or> int (length xs) < k then Inl TopkOutOfRange
      else Inr (take (nat k) (topk_order T xs (nat k))))"

text \<open>\<open>torch.topk(xs, k)\<close> on a tensor of finite entries: values and indices.\<close>

definition topk :: "tie_order \<Rightarrow> real list \<Rightarrow> int \<Rightarrow> error + (real list \<times> nat list)" where
  "topk T xs k =
     (case topk_indices T (map Fin xs) k of
        Inl e \<Rightarrow> Inl e
      | Inr idx \<Rightarrow> Inr (map ((!) xs) idx, idx))"

text \<open>
  Indexed assignment \<open>base[index] = src\<close> and \<open>base.scatter(1, index, src)\<close>:
  position \<open>index[j]\<close> receives \<open>src[j]\<close>. Every index the source passes is a position
  of \<open>base\<close> (it comes from \<open>torch.sort\<close> or \<open>torch.topk\<close> on a tensor of the same length).
\<close>

definition scatter :: "'a list \<Rightarrow> nat list \<Rightarrow> 'a list \<Rightarrow> 'a list" where
  "scatter base index src = fold (\<lambda>(i, v) acc. acc[i := v]) (zip index src) base"

text \<open>
  Token tensors of rank 1 (shape \<open>[n]\<close>) and rank 2 (shape \<open>[r, n]\<close>, a list of
  rows), and \<open>torch.cat([a, b], dim=-1)\<close> on them. \<open>torch.cat\<close> raises a RuntimeError
  when the two tensors have different numbers of dimensions (an empty rank-1 tensor is
  skipped), and when two rank-2 tensors differ in their number of rows.
\<close>

datatype tensor = Rank1 "nat list" | Rank2 "nat list list"

fun torch_cat :: "tensor \<Rightarrow> tensor \<Rightarrow> error + tensor" where
  "torch_cat (Rank1 xs) (Rank1 ys) = Inr (Rank1 (xs @ ys))"
| "torch_cat (Rank2 xss) (Rank2 yss) =
     (if length xss = length yss then Inr (Rank2 (map2 (@) xss yss)) else Inl CatSizeMismatch)"
| "torch_cat (Rank2 xss) (Rank1 ys) =
     (if ys = [] then Inr (Rank2 xss) else Inl CatDimensionMismatch)"
| "torch_cat (Rank1 xs) (Rank2 yss) =
     (if xs = [] then Inr (Rank2 yss) else Inl CatDimensionMismatch)"

text \<open>The token row of a tensor of shape \<open>[1, n]\<close> (\<open>generated_tokens[0]\<close>).\<close>

fun row0 :: "tensor \<Rightarrow> nat list" where
  "row0 (Rank2 (r # rs)) = r"
| "row0 (Rank2 []) = []"
| "row0 (Rank1 xs) = xs"

subsection \<open>Construction: \<open>FudgeInference.__init__\<close> (lines 6-57)\<close>

text \<open>
  The checkpoint read by \<open>torch.load\<close>. \<open>ck_label_mapping\<close> is the dict
  \<open>checkpoint['label_mapping']\<close> as its items in insertion order (keys are unique),
  \<open>ck_num_labels\<close> is \<open>checkpoint['num_labels']\<close>, and \<open>ck_scorer\<close> is the classifier
  that lines 50-57 would rebuild from \<open>checkpoint['base_model_name']\<close> and
  \<open>checkpoint['state_dict']\<close>: given a token sequence it returns the row
  \<open>fudge_outputs['logits'][0]\<close>.
\<close>

record checkpoint =
  ck_label_mapping :: "(string \<times> int) list"
  ck_num_labels :: int
  ck_scorer :: "nat list \<Rightarrow> real list"

text \<open>
  The tokenizer: \<open>encode\<close>, \<open>decode(..., skip_special_tokens=True)\<close> and
  \<open>eos_token_id\<close> (\<open>None\<close> for a tokenizer without one).
\<close>

record tokenizer =
  encode :: "string \<Rightarrow> nat list"
  decode :: "nat list \<Rightarrow> string"
  eos_token_id :: "nat option"

text \<open>The argument \<open>target_class: int | str\<close>.\<close>

datatype target_spec = ClassName string | ClassIndex int

text \<open>
  The fields of a \<open>FudgeInference\<close> object. \<open>model\<close> is the base language model: for a
  token sequence it returns \<open>outputs.logits[0]\<close>, one row of vocabulary scores per
  input position.
\<close>

record decoder =
  model :: "nat list \<Rightarrow> real list list"
  tok :: tokenizer
  label_mapping :: "(string \<times> int) list"
  num_classes :: int
  target_class :: int
  fudge_model :: "nat list \<Rightarrow> real list"

text \<open>
  Lines 39-47. The two \<open>ValueError\<close>s are kept apart by constructor:
  \<open>UnknownClassName name keys\<close> is the error whose message is
  \<open>f"Unknown class name: {name}. Available classes: {keys}"\<close>, and
  \<open>TargetClassOutOfRange n\<close> the one whose message is
  \<open>f"target_class must be between 0 and {n}"\<close>.
\<close>

definition resolve_target_class :: "(string \<times> int) list \<Rightarrow> int \<Rightarrow> target_spec \<Rightarrow> error + int" where
  "resolve_target_class mapping n t =
     (case t of
        ClassName name \<Rightarrow>
          (case map_of mapping name of
             None \<Rightarrow> Inl (UnknownClassName name (map fst mapping))
           | Some i \<Rightarrow> Inr i)
      | ClassIndex i \<Rightarrow>
          (if \<not> (0 \<le> i \<and> i < n) then Inl (TargetClassOutOfRange (n - 1)) else Inr i))"

text \<open>
  The names that the module binds before the class body runs (the imports of lines 1-3
  and the class statement of line 5), and the lookup of a global name, which raises a
  NameError for any other name.
\<close>

definition module_globals :: "string list" where
  "module_globals =
     [''torch'', ''AutoModelForCausalLM'', ''AutoTokenizer'', ''Optional'', ''FudgeInference'']"

definition lookup_global :: "string \<Rightarrow> error + unit" where
  "lookup_global name = (if name \<in> set module_globals then Inr () else Inl (NameError name))"

text \<open>
  The constructor. The target class is resolved first (lines 39-47); line 50 then looks
  up the global name \<open>AutoregressiveFudgeClassifier\<close> to build the classifier, and only
  after that would the object be complete (lines 50-57).
\<close>

definition FudgeInference_init ::
    "(nat list \<Rightarrow> real list list) \<Rightarrow> tokenizer \<Rightarrow> checkpoint \<Rightarrow> target_spec \<Rightarrow> error + decoder" where
  "FudgeInference_init m t ck target =
     (case resolve_target_class (ck_label_mapping ck) (ck_num_labels ck) target of
        Inl e \<Rightarrow> Inl e
      | Inr c \<Rightarrow>
          (case lookup_global ''AutoregressiveFudgeClassifier'' of
             Inl e \<Rightarrow> Inl e
           | Inr _ \<Rightarrow>
               Inr \<lparr> model = m, tok = t, label_mapping = ck_label_mapping ck,
                     num_classes = ck_num_labels ck, target_class = c,
                     fudge_model = ck_scorer ck \<rparr>))"

subsection \<open>Distribution Builder: \<open>get_next_token_distribution\<close> (lines 68-93)\<close>

text \<open>
  Lines 80-82. \<open>torch.topk(logits, top_k)[0][..., -1, None]\<close> is the last of the
  \<open>top_k\<close> largest values; indexing \<open>-1\<close> raises an IndexError when \<open>top_k = 0\<close>.
  Every score strictly below that value is set to \<open>-inf\<close>.
\<close>

definition top_k_filter :: "tie_order \<Rightarrow> logit list \<Rightarrow> int option \<Rightarrow> error + logit list" where
  "top_k_filter T logits top_k =
     (case top_k of
        None \<Rightarrow> Inr logits
      | Some k \<Rightarrow>
          (case topk_indices T logits k of
             Inl e \<Rightarrow> Inl e
           | Inr idx \<Rightarrow>
               let vals = map ((!) logits) idx in
               if vals = [] then Inl IndexError
               else Inr (map (\<lambda>x. if x < last vals then NegInf else x) logits)))"

text \<open>
  Lines 84-91. The removal mask in sorted order is \<open>cumulative_probs > top_p\<close>
  shifted one place to the right with \<open>False\<close> entering at rank 0 (lines 88-89; the
  assignment to index 0 raises an IndexError on an empty vocabulary). The mask is
  carried back to vocabulary order with \<open>scatter\<close> and the marked scores become
  \<open>-inf\<close>.
\<close>

definition top_p_filter :: "tie_order \<Rightarrow> logit list \<Rightarrow> real option \<Rightarrow> error + logit list" where
  "top_p_filter T logits top_p =
     (case top_p of
        None \<Rightarrow> Inr logits
      | Some p \<Rightarrow>
          let sorted_indices = sort_order T logits;
              sorted_logits = map ((!) logits) sorted_indices;
              cumulative_probs = cumsum (softmax sorted_logits);
              over = map (\<lambda>c. p < c) cumulative_probs
          in if over = [] then Inl IndexError
             else
               let sorted_indices_to_remove = False # butlast over;
                   indices_to_remove =
                     scatter sorted_indices_to_remove sorted_indices sorted_indices_to_remove
               in Inr (map2 (\<lambda>r x. if r then NegInf else x) indices_to_remove logits))"

text \<open>
  The whole function. \<open>outputs.logits[:, -1, :]\<close> raises an IndexError when the model
  returns no row. The source does not look at the sign of \<open>temperature\<close>; a division
  of a tensor by \<open>0\<close> raises nothing in torch but gives non-finite entries, which this
  model does not represent, so the properties about the entries of a distribution
  assume a non-zero temperature.
\<close>

definition get_next_token_distribution ::
    "tie_order \<Rightarrow> (nat list \<Rightarrow> real list list) \<Rightarrow> nat list \<Rightarrow> real \<Rightarrow> int option \<Rightarrow> real option
      \<Rightarrow> error + real list" where
  "get_next_token_distribution T m input_ids temperature top_k top_p =
     (let rows = m input_ids in
      if rows = [] then Inl IndexError
      else
        let logits = map (\<lambda>x. Fin (x / temperature)) (last rows) in
        (case top_k_filter T logits top_k of
           Inl e \<Rightarrow> Inl e
         | Inr logits1 \<Rightarrow>
             (case top_p_filter T logits1 top_p of
                Inl e \<Rightarrow> Inl e
              | Inr logits2 \<Rightarrow> Inr (softmax logits2))))"

subsection \<open>Guided Decoder: \<open>generate_with_fudge\<close> (lines 95-177)\<close>

text \<open>The keyword arguments of \<open>generate_with_fudge\<close>.\<close>

record gen_params =
  max_length :: int
  temperature :: real
  fudge_temperature :: real
  base_top_k :: "int option"
  base_top_p :: "real option"
  fudge_top_k :: int
  lambda_weight :: real

text \<open>
  Lines 125-130: the base distribution of a step, with \<open>top_k=None\<close> and
  \<open>top_p=base_top_p\<close>.
\<close>

definition base_distribution ::
    "tie_order \<Rightarrow> decoder \<Rightarrow> gen_params \<Rightarrow> nat list \<Rightarrow> error + real list" where
  "base_distribution T d p generated_tokens =
     get_next_token_distribution T (model d) generated_tokens (temperature p) None (base_top_p p)"

text \<open>Lines 133-136: \<open>(candidate_values, candidate_indices)\<close>.\<close>

definition candidates ::
    "tie_order \<Rightarrow> decoder \<Rightarrow> gen_params \<Rightarrow> nat list \<Rightarrow> error + (real list \<times> nat list)" where
  "candidates T d p generated_tokens =
     (case base_distribution T d p generated_tokens of
        Inl e \<Rightarrow> Inl e
      | Inr base \<Rightarrow> topk T base (min (fudge_top_k p) (int (length base))))"

text \<open>
  Lines 139-149: one call of the auxiliary scorer per candidate, on the concatenation
  of the \<open>[1, n]\<close> token tensor with the candidate unsqueezed twice to shape \<open>[1, 1]\<close>
  (lines 141-144); \<open>fudge_outputs['logits'][0, 1]\<close> raises an IndexError when the
  scorer has fewer than two output channels.
\<close>

fun fudge_scores :: "decoder \<Rightarrow> nat list \<Rightarrow> nat list \<Rightarrow> error + real list" where
  "fudge_scores d generated_tokens [] = Inr []"
| "fudge_scores d generated_tokens (token_id # rest) =
     (case torch_cat (Rank2 [generated_tokens]) (Rank2 [[token_id]]) of
        Inl e \<Rightarrow> Inl e
      | Inr candidate_sequence \<Rightarrow>
          let logits = fudge_model d (row0 candidate_sequence) in
          if length logits < 2 then Inl IndexError
          else (case fudge_scores d generated_tokens rest of
                  Inl e \<Rightarrow> Inl e
                | Inr scores \<Rightarrow> Inr (logits ! 1 # scores)))"

text \<open>Line 153.\<close>

definition fudge_distribution :: "real \<Rightarrow> real list \<Rightarrow> real list" where
  "fudge_distribution fudge_temp scores = softmax (map (\<lambda>s. Fin (s / fudge_temp)) scores)"

text \<open>Line 154, elementwise over the candidates.\<close>

definition combine :: "real \<Rightarrow> real list \<Rightarrow> real list \<Rightarrow> real list" where
  "combine lam candidate_values fudge_dist =
     map2 (\<lambda>b f. (1 - lam) * b + lam * f) candidate_values fudge_dist"

text \<open>Lines 133-154: the candidate positions of a step and their combined scores.\<close>

definition combined_scores ::
    "tie_order \<Rightarrow> decoder \<Rightarrow> gen_params \<Rightarrow> nat list \<Rightarrow> error + (nat list \<times> real list)" where
  "combined_scores T d p generated_tokens =
     (case candidates T d p generated_tokens of
        Inl e \<Rightarrow> Inl e
      | Inr (candidate_values, candidate_indices) \<Rightarrow>
          (case fudge_scores d generated_tokens candidate_indices of
             Inl e \<Rightarrow> Inl e
           | Inr scores \<Rightarrow>
               Inr (candidate_indices,
                    combine (lambda_weight p) candidate_values
                      (fudge_distribution (fudge_temperature p) scores))))"

text \<open>Lines 157-158: the full-vocabulary vector before the re-truncation.\<close>

definition scatter_zeros :: "nat \<Rightarrow> nat list \<Rightarrow> real list \<Rightarrow> real list" where
  "scatter_zeros n index src = scatter (replicate n 0) index src"

text \<open>Lines 160-166.\<close>

definition retruncate :: "tie_order \<Rightarrow> int option \<Rightarrow> real list \<Rightarrow> error + real list" where
  "retruncate T top_k combined =
     (case top_k of
        None \<Rightarrow> Inr combined
      | Some k \<Rightarrow>
          (case topk T combined (min k (int (length combined))) of
             Inl e \<Rightarrow> Inl e
           | Inr (top_k_values, top_k_indices) \<Rightarrow>
               Inr (scatter_zeros (length combined) top_k_indices top_k_values)))"

text \<open>Lines 125-166: the vector handed to \<open>torch.multinomial\<close>.\<close>

definition combined_distribution ::
    "tie_order \<Rightarrow> decoder \<Rightarrow> gen_params \<Rightarrow> nat list \<Rightarrow> error + real list" where
  "combined_distribution T d p generated_tokens =
     (case base_distribution T d p generated_tokens of
        Inl e \<Rightarrow> Inl e
      | Inr base \<Rightarrow>
          (case combined_scores T d p generated_tokens of
             Inl e \<Rightarrow> Inl e
           | Inr (candidate_indices, scores) \<Rightarrow>
               retruncate T (base_top_k p)
                 (scatter_zeros (length base) candidate_indices scores)))"

text \<open>
  \<open>torch.multinomial(weights, num_samples=1)\<close>. The weights must be non-negative with
  a non-zero sum; torch raises a RuntimeError otherwise. The random draw itself is a
  parameter: a function from the generator state and the weights to the drawn position
  and the next generator state. The result is a tensor of shape \<open>[1]\<close>.
\<close>

type_synonym 'g sampler = "'g \<Rightarrow> real list \<Rightarrow> nat \<times> 'g"

definition multinomial :: "'g sampler \<Rightarrow> 'g \<Rightarrow> real list \<Rightarrow> error + (nat \<times> 'g)" where
  "multinomial draw g weights =
     (if list_ex (\<lambda>w. w < 0) weights then Inl InvalidMultinomial
      else if sum_list weights = 0 then Inl InvalidMultinomial
      else Inr (draw g weights))"

text \<open>One pass through the loop body up to line 169: the sampled token.\<close>

definition sample_next ::
    "tie_order \<Rightarrow> decoder \<Rightarrow> gen_params \<Rightarrow> 'g sampler \<Rightarrow> 'g \<Rightarrow> nat list
      \<Rightarrow> error + (nat \<times> 'g)" where
  "sample_next T d p draw g generated_tokens =
     (case combined_distribution T d p generated_tokens of
        Inl e \<Rightarrow> Inl e
      | Inr weights \<Rightarrow> multinomial draw g weights)"

text \<open>
  The loop of lines 123-175; the first argument counts the iterations of
  \<open>range(max_length)\<close> still to run, and \<open>generated_tokens\<close> is the row of the
  \<open>[1, n]\<close> token tensor. Line 172 concatenates that rank-2 tensor with \<open>next_token\<close>
  as \<open>torch.multinomial\<close> returned it, a rank-1 tensor of shape \<open>[1]\<close>.
\<close>

fun fudge_loop ::
    "nat \<Rightarrow> tie_order \<Rightarrow> decoder \<Rightarrow> gen_params \<Rightarrow> 'g sampler \<Rightarrow> 'g \<Rightarrow> nat list
      \<Rightarrow> error + (nat list \<times> 'g)" where
  "fudge_loop 0 T d p draw g generated_tokens = Inr (generated_tokens, g)"
| "fudge_loop (Suc n) T d p draw g generated_tokens =
     (case sample_next T d p draw g generated_tokens of
        Inl e \<Rightarrow> Inl e
      | Inr (next_token, g') \<Rightarrow>
          (case torch_cat (Rank2 [generated_tokens]) (Rank1 [next_token]) of
             Inl e \<Rightarrow> Inl e
           | Inr cat \<Rightarrow>
               if Some next_token = eos_token_id (tok d)
               then Inr (row0 cat, g')
               else fudge_loop n T d p draw g' (row0 cat)))"

text \<open>The token sequence at line 177, before decoding.\<close>

definition generate_tokens ::
    "tie_order \<Rightarrow> decoder \<Rightarrow> gen_params \<Rightarrow> 'g sampler \<Rightarrow> 'g \<Rightarrow> string
      \<Rightarrow> error + (nat list \<times> 'g)" where
  "generate_tokens T d p draw g prompt =
     fudge_loop (nat (max_length p)) T d p draw g (encode (tok d) prompt)"

definition generate_with_fudge ::
    "tie_order \<Rightarrow> decoder \<Rightarrow> gen_params \<Rightarrow> 'g sampler \<Rightarrow> 'g \<Rightarrow> string
      \<Rightarrow> error + (string \<times> 'g)" where
  "generate_with_fudge T d p draw g prompt =
     (case generate_tokens T d p draw g prompt of
        Inl e \<Rightarrow> Inl e
      | Inr (generated_tokens, g') \<Rightarrow> Inr (decode (tok d) generated_tokens, g'))"

subsection \<open>A small concrete instance\<close>

text \<open>
  A vocabulary of three tokens. The base model scores every position with
  \<open>[ln 4, ln 2, 0]\<close>, so that its softmax is \<open>[4/7, 2/7, 1/7]\<close>; the scorer has two
  output channels; token 2 is the end-of-sequence token. The generator state is a list
  of positions and a draw takes the next one (position 0 when the list is used up).
\<close>

definition ex_model :: "nat list \<Rightarrow> real list list" where
  "ex_model input_ids = map (\<lambda>_. [ln 4, ln 2, 0]) input_ids"

definition ex_tokenizer :: tokenizer where
  "ex_tokenizer = \<lparr> encode = map of_char, decode = map char_of, eos_token_id = Some 2 \<rparr>"

definition ex_checkpoint :: checkpoint where
  "ex_checkpoint =
     \<lparr> ck_label_mapping = [(''positive'', 0), (''negative'', 1)], ck_num_labels = 2,
       ck_scorer = (\<lambda>seq. [0, 0]) \<rparr>"

definition ex_decoder :: decoder where
  "ex_decoder =
     \<lparr> model = ex_model, tok = ex_tokenizer,
       label_mapping = [(''positive'', 0), (''negative'', 1)], num_classes = 2,
       target_class = 0, fudge_model = (\<lambda>seq. [0, 0]) \<rparr>"

definition ex_params :: gen_params where
  "ex_params =
     \<lparr> max_length = 1, temperature = 1, fudge_temperature = 1, base_top_k = Some 50,
       base_top_p = None, fudge_top_k = 200, lambda_weight = 1 / 2 \<rparr>"

text \<open>The settings of \<open>ex_params\<close> that a decoding step reads before the fusion.\<close>

definition ex_settings :: "gen_params \<Rightarrow> bool" where
  "ex_settings p \<longleftrightarrow>
     temperature p = 1 \<and> fudge_temperature p = 1 \<and> base_top_p p = None
     \<and> fudge_top_k p = 200"

definition ex_draw :: "nat list sampler" where
  "ex_draw g weights = (case g of [] \<Rightarrow> (0, []) | i # rest \<Rightarrow> (i, rest))"

text \<open>A base model whose last row of scores ties everywhere.\<close>

definition ex_tie_model :: "nat list \<Rightarrow> real list list" where
  "ex_tie_model input_ids = map (\<lambda>_. [0, 0, 0]) input_ids"

text \<open>A base model over an empty vocabulary.\<close>

definition ex_empty_model :: "nat list \<Rightarrow> real list list" where
  "ex_empty_model input_ids = map (\<lambda>_. []) input_ids"

subsection \<open>Notions used to state the properties\<close>

text \<open>The positions of a vector that carry non-zero mass.\<close>

definition support :: "real list \<Rightarrow> nat set" where
  "support w = {i. i < length w \<and> w ! i \<noteq> 0}"

text \<open>The \<open>k\<close>-th largest entry of a list, counted from 1 and with repetitions.\<close>

definition kth_largest :: "'a::linorder list \<Rightarrow> nat \<Rightarrow> 'a" where
  "kth_largest xs k = rev (sort xs) ! (k - 1)"

text \<open>
  The scores that the filters of \<open>get_next_token_distribution\<close> see: the last row of
  the model's output divided by the temperature (line 78).
\<close>

definition scaled_logits :: "(nat list \<Rightarrow> real list list) \<Rightarrow> nat list \<Rightarrow> real \<Rightarrow> real list" where
  "scaled_logits m input_ids t = map (\<lambda>x. x / t) (last (m input_ids))"

section \<open>Properties\<close>

subsection \<open>Sorting and top-k\<close>

lemma descending_orderD:
  assumes "descending_order xs idx"
  shows "length idx = length xs" "distinct idx" "set idx = {..<length xs}"
    "sorted (rev (map ((!) xs) idx))"
  using assms by (simp_all add: descending_order_def)

lemma descending_order_nth_less:
  "descending_order xs idx \<Longrightarrow> r < length xs \<Longrightarrow> idx ! r < length xs"
proof -
  assume d: "descending_order xs idx" and r: "r < length xs"
  then have "idx ! r \<in> set idx"
    by (simp add: descending_orderD(1))
  with d show ?thesis
    by (simp add: descending_orderD(3))
qed

lemma descending_order_mono:
  assumes "descending_order xs idx" "i \<le> j" "j < length xs"
  shows "xs ! (idx ! j) \<le> xs ! (idx ! i)"
proof -
  let ?vs = "map ((!) xs) idx"
  have len: "length ?vs = length xs"
    using assms(1) by (simp add: descending_orderD(1))
  have "sorted (rev ?vs)"
    by (rule descending_orderD(4) [OF assms(1)])
  then have "?vs ! j \<le> ?vs ! i"
    using assms(2,3) len by (simp add: sorted_rev_iff_nth_mono)
  then show ?thesis
    using assms(2,3) len by simp
qed

text \<open>The values read in a descending order are the sorted values, largest first.\<close>

lemma descending_order_values:
  assumes "descending_order xs idx"
  shows "map ((!) xs) idx = rev (sort xs)"
proof -
  have "mset idx = mset [0..<length xs]"
    using descending_orderD(2,3) [OF assms]
    by (intro iffD1 [OF set_eq_iff_mset_eq_distinct]) (simp_all add: atLeast0LessThan)
  then have "mset (map ((!) xs) idx) = mset (map ((!) xs) [0..<length xs])"
    by (simp only: mset_map)
  then have m: "mset (rev (map ((!) xs) idx)) = mset xs"
    by (simp add: map_nth)
  have "sort xs = rev (map ((!) xs) idx)"
    using m descending_orderD(4) [OF assms] by (intro properties_for_sort) simp_all
  then show ?thesis
    by simp
qed

lemma map_sort_key: "map f (sort_key f xs) = sort (map f xs)"
  by (rule properties_for_sort [symmetric]) simp_all

lemma descending_order_argsort_desc: "descending_order xs (argsort_desc xs)"
proof -
  have "map ((!) xs) (sort_key ((!) xs) (rev [0..<length xs]))
      = sort (map ((!) xs) (rev [0..<length xs]))"
    by (rule map_sort_key)
  then have "sorted (map ((!) xs) (sort_key ((!) xs) (rev [0..<length xs])))"
    by simp
  then have "sorted (rev (map ((!) xs) (argsort_desc xs)))"
    by (simp add: argsort_desc_def rev_map)
  moreover have "set (argsort_desc xs) = {..<length xs}"
    by (auto simp: argsort_desc_def)
  ultimately show ?thesis
    by (simp add: descending_order_def) (simp add: argsort_desc_def)
qed

lemma torch_order_lowest_first: "torch_order lowest_first"
  by (simp add: torch_order_def lowest_first_def descending_order_argsort_desc)

lemma torch_orderD:
  assumes "torch_order T"
  shows "descending_order xs (sort_order T xs)" "descending_order xs (topk_order T xs k)"
  using assms by (simp_all add: torch_order_def)

lemma topk_indices_Inr:
  assumes "topk_indices T xs k = Inr idx"
  shows "0 \<le> k" "nat k \<le> length xs" "idx = take (nat k) (topk_order T xs (nat k))"
  using assms by (auto simp: topk_indices_def split: if_splits)

lemma topk_Inr:
  assumes "topk T xs k = Inr (vals, idx)"
  shows "0 \<le> k" "nat k \<le> length xs" "idx = take (nat k) (topk_order T (map Fin xs) (nat k))"
    "vals = map ((!) xs) idx" "length vals = length idx"
proof -
  from assms have i: "topk_indices T (map Fin xs) k = Inr idx" and v: "vals = map ((!) xs) idx"
    by (auto simp: topk_def split: sum.splits)
  from topk_indices_Inr [OF i] show "0 \<le> k" "nat k \<le> length xs"
      "idx = take (nat k) (topk_order T (map Fin xs) (nat k))"
    by simp_all
  from v show "vals = map ((!) xs) idx" "length vals = length idx"
    by simp_all
qed

lemma topk_succeeds:
  "0 \<le> k \<Longrightarrow> k \<le> int (length xs) \<Longrightarrow> \<exists>vals idx. topk T xs k = Inr (vals, idx)"
  by (simp add: topk_def topk_indices_def)

lemma topk_indices_props:
  assumes "torch_order T" "topk_indices T xs k = Inr idx"
  shows "length idx = nat k" "distinct idx" "set idx \<subseteq> {..<length xs}"
proof -
  note t = topk_indices_Inr [OF assms(2)]
  note d = descending_orderD [OF torch_orderD(2) [OF assms(1), of xs "nat k"]]
  show "length idx = nat k"
    using t(2,3) d(1) by simp
  show "distinct idx"
    using t(3) d(2) by simp
  show "set idx \<subseteq> {..<length xs}"
    using t(3) d(3) set_take_subset [of "nat k" "topk_order T xs (nat k)"] by simp
qed

lemma topk_props:
  assumes "torch_order T" "topk T xs k = Inr (vals, idx)"
  shows "length idx = nat k" "distinct idx" "set idx \<subseteq> {..<length xs}"
proof -
  from assms(2) have i: "topk_indices T (map Fin xs) k = Inr idx"
    by (auto simp: topk_def split: sum.splits)
  from topk_indices_props [OF assms(1) i]
  show "length idx = nat k" "distinct idx" "set idx \<subseteq> {..<length xs}"
    by simp_all
qed

text \<open>Every entry outside the selection is at most every selected entry.\<close>

lemma topk_indices_dominates:
  assumes "torch_order T" "topk_indices T xs k = Inr idx"
    and "i \<in> set idx" "j < length xs" "j \<notin> set idx"
  shows "xs ! j \<le> xs ! i"
proof -
  note t = topk_indices_Inr [OF assms(2)]
  let ?a = "topk_order T xs (nat k)"
  have d: "descending_order xs ?a"
    by (rule torch_orderD(2) [OF assms(1)])
  note dd = descending_orderD [OF d]
  from assms(3) t(3) obtain q where q: "q < nat k" "q < length ?a" "i = ?a ! q"
    by (auto simp: in_set_conv_nth)
  from assms(4) have "j \<in> set ?a"
    by (simp add: dd(3))
  then obtain r where r: "r < length ?a" "j = ?a ! r"
    by (auto simp: in_set_conv_nth)
  have "\<not> r < nat k"
  proof
    assume "r < nat k"
    with r have "j \<in> set (take (nat k) ?a)"
      by (auto simp: in_set_conv_nth intro!: exI [of _ r])
    with assms(5) t(3) show False by simp
  qed
  with q r show ?thesis
    using descending_order_mono [OF d, of q r] by (simp add: dd(1))
qed

lemma topk_dominates:
  assumes "torch_order T" "topk T xs k = Inr (vals, idx)"
    and "i \<in> set idx" "j < length xs" "j \<notin> set idx"
  shows "xs ! j \<le> xs ! i"
proof -
  from assms(2) have t: "topk_indices T (map Fin xs) k = Inr idx"
    by (auto simp: topk_def split: sum.splits)
  from topk_indices_props(3) [OF assms(1) t] assms(3) have i: "i < length xs"
    by auto
  from topk_indices_dominates [OF assms(1) t assms(3) _ assms(5)] assms(4)
  have "map Fin xs ! j \<le> map Fin xs ! i"
    by simp
  with i assms(4) show ?thesis
    by simp
qed

subsection \<open>Scatter\<close>

lemma scatter_Nil [simp]: "scatter b [] src = b" "scatter b idx [] = b"
  by (simp_all add: scatter_def)

lemma scatter_Cons [simp]: "scatter b (i # idx) (v # src) = scatter (b[i := v]) idx src"
  by (simp add: scatter_def)

lemma length_scatter [simp]: "length (scatter b idx src) = length b"
proof (induction idx arbitrary: b src)
  case Nil
  then show ?case by simp
next
  case (Cons i idx)
  then show ?case by (cases src) simp_all
qed

lemma scatter_nth_notin: "j \<notin> set idx \<Longrightarrow> scatter b idx src ! j = b ! j"
proof (induction idx arbitrary: b src)
  case Nil
  then show ?case by simp
next
  case (Cons i idx)
  then show ?case by (cases src) simp_all
qed

lemma scatter_nth_in:
  assumes "distinct idx" "length src = length idx" "i < length idx" "idx ! i < length b"
  shows "scatter b idx src ! (idx ! i) = src ! i"
  using assms
proof (induction idx arbitrary: b src i)
  case Nil
  then show ?case by simp
next
  case (Cons a idx)
  then obtain v vs where src: "src = v # vs"
    by (cases src) auto
  show ?case
  proof (cases i)
    case 0
    with Cons.prems src show ?thesis
      by (simp add: scatter_nth_notin)
  next
    case (Suc i')
    with Cons.prems src show ?thesis
      by (simp add: Cons.IH)
  qed
qed

lemma length_scatter_zeros [simp]: "length (scatter_zeros n idx src) = n"
  by (simp add: scatter_zeros_def)

lemma scatter_zeros_support:
  assumes "j < n" "scatter_zeros n idx src ! j \<noteq> 0"
  shows "j \<in> set idx"
proof (rule ccontr)
  assume "j \<notin> set idx"
  then have "scatter_zeros n idx src ! j = replicate n 0 ! j"
    by (simp add: scatter_zeros_def scatter_nth_notin)
  with assms show False by simp
qed

subsection \<open>Softmax\<close>

lemma length_softmax [simp]: "length (softmax xs) = length xs"
  by (simp add: softmax_def Let_def)

lemma softmax_nth:
  assumes "i < length xs"
  shows "softmax (map Fin xs) ! i = exp (xs ! i) / (\<Sum>j = 0..<length xs. exp (xs ! j))"
proof -
  have "sum_list (map exp_logit (map Fin xs)) = (\<Sum>j = 0..<length xs. exp (xs ! j))"
    by (simp add: sum_list_sum_nth comp_def)
  with assms show ?thesis
    by (simp add: softmax_def Let_def comp_def)
qed

subsection \<open>The concrete instance, evaluated\<close>

lemma upt3: "[0..<3] = [0, 1, 2]"
  by (simp add: upt_rec)

lemma ex_model_rows:
  "toks \<noteq> [] \<Longrightarrow> ex_model toks \<noteq> [] \<and> last (ex_model toks) = [ln 4, ln 2, 0]"
  by (simp add: ex_model_def last_map)

lemma lowest_first_simps [simp]:
  "sort_order lowest_first = argsort_desc" "topk_order lowest_first xs k = argsort_desc xs"
  by (simp_all add: lowest_first_def)

lemma ex_settings_params [simp]:
  "ex_settings ex_params" "ex_settings (ex_params\<lparr>max_length := n\<rparr>)"
  "ex_settings (ex_params\<lparr>base_top_k := k\<rparr>)" "ex_settings (ex_params\<lparr>lambda_weight := l\<rparr>)"
  by (simp_all add: ex_settings_def ex_params_def)

lemma ex_base_distribution:
  assumes "toks \<noteq> []" "ex_settings p"
  shows "base_distribution lowest_first ex_decoder p toks = Inr [4 / 7, 2 / 7, 1 / 7]"
  using ex_model_rows [OF assms(1)] assms(2)
  by (simp add: base_distribution_def get_next_token_distribution_def ex_decoder_def ex_settings_def
      top_k_filter_def top_p_filter_def softmax_def)

lemma ex_candidates:
  assumes "toks \<noteq> []" "ex_settings p"
  shows "candidates lowest_first ex_decoder p toks = Inr ([4 / 7, 2 / 7, 1 / 7], [0, 1, 2])"
  using assms(2)
  by (simp add: candidates_def ex_base_distribution [OF assms] topk_def topk_indices_def
      argsort_desc_def upt3 ex_settings_def)

lemma ex_fudge_scores: "fudge_scores ex_decoder toks cs = Inr (map (\<lambda>_. 0) cs)"
  by (induction cs) (simp_all add: ex_decoder_def)

lemma ex_combined_scores:
  assumes "toks \<noteq> []" "ex_settings p" "lambda_weight p = 1 / 2"
  shows "combined_scores lowest_first ex_decoder p toks
    = Inr ([0, 1, 2], [19 / 42, 13 / 42, 5 / 21])"
proof -
  from assms(2) have p: "fudge_temperature p = 1"
    by (simp add: ex_settings_def)
  show ?thesis
    by (simp add: combined_scores_def ex_candidates [OF assms(1,2)] ex_fudge_scores p assms(3)
        fudge_distribution_def softmax_def combine_def)
qed

lemma ex_combined_distribution:
  assumes "toks \<noteq> []" "ex_settings p" "lambda_weight p = 1 / 2" "base_top_k p = Some 50"
  shows "combined_distribution lowest_first ex_decoder p toks = Inr [19 / 42, 13 / 42, 5 / 21]"
  using assms(4)
  by (simp add: combined_distribution_def ex_combined_scores [OF assms(1,2,3)]
      ex_base_distribution [OF assms(1,2)] retruncate_def topk_def topk_indices_def
      argsort_desc_def upt3 scatter_zeros_def scatter_def)

lemma ex_combined_distribution_0:
  assumes "toks \<noteq> []" "ex_settings p" "lambda_weight p = 1 / 2" "base_top_k p = Some 0"
  shows "combined_distribution lowest_first ex_decoder p toks = Inr [0, 0, 0]"
  using assms(4)
  by (simp add: combined_distribution_def ex_combined_scores [OF assms(1,2,3)]
      ex_base_distribution [OF assms(1,2)] retruncate_def topk_def topk_indices_def
      scatter_zeros_def scatter_def numeral_3_eq_3)

lemma ex_sample_next:
  assumes "toks \<noteq> []"
  shows "sample_next lowest_first ex_decoder (ex_params\<lparr>max_length := n\<rparr>) ex_draw (i # rest) toks
    = Inr (i, rest)"
proof -
  have "base_top_k (ex_params\<lparr>max_length := n\<rparr>) = Some 50"
      "lambda_weight (ex_params\<lparr>max_length := n\<rparr>) = 1 / 2"
    by (simp_all add: ex_params_def)
  then show ?thesis
    by (simp add: sample_next_def ex_combined_distribution [OF assms] multinomial_def ex_draw_def)
qed

lemma ex_encode: "encode (tok ex_decoder) ''a'' = [97]"
  by (simp add: ex_decoder_def ex_tokenizer_def)

subsection \<open>Construction\<close>

lemma lookup_classifier:
  "lookup_global ''AutoregressiveFudgeClassifier'' = Inl (NameError ''AutoregressiveFudgeClassifier'')"
  by (simp add: lookup_global_def module_globals_def)

text \<open>
  Claim C8, evaluated on the code. Constructing the decoder with a class name that is
  not a key of the label mapping raises the error that carries the provided name and
  all keys of the mapping, and with an integer outside \<open>0..num_classes-1\<close> it raises
  the out-of-range error, as the claim says. With a key of the mapping or an integer in
  range, lines 39-47 resolve the target class, but the constructor then raises a
  NameError at line 50 instead of returning the object: the name
  \<open>AutoregressiveFudgeClassifier\<close> is not bound in the module.
\<close>

theorem construction_outcomes:
  "(unknown \<notin> set (map fst (ck_label_mapping ck)) \<longrightarrow>
      FudgeInference_init m t ck (ClassName unknown)
        = Inl (UnknownClassName unknown (map fst (ck_label_mapping ck))))
   \<and> (\<not> (0 \<le> i \<and> i < ck_num_labels ck) \<longrightarrow>
      FudgeInference_init m t ck (ClassIndex i)
        = Inl (TargetClassOutOfRange (ck_num_labels ck - 1)))
   \<and> (known \<in> set (map fst (ck_label_mapping ck)) \<longrightarrow>
      (\<exists>c. map_of (ck_label_mapping ck) known = Some c
         \<and> resolve_target_class (ck_label_mapping ck) (ck_num_labels ck) (ClassName known) = Inr c)
      \<and> FudgeInference_init m t ck (ClassName known)
          = Inl (NameError ''AutoregressiveFudgeClassifier''))
   \<and> (0 \<le> j \<and> j < ck_num_labels ck \<longrightarrow>
      resolve_target_class (ck_label_mapping ck) (ck_num_labels ck) (ClassIndex j) = Inr j
      \<and> FudgeInference_init m t ck (ClassIndex j)
          = Inl (NameError ''AutoregressiveFudgeClassifier''))"
proof (intro conjI impI)
  assume "unknown \<notin> set (map fst (ck_label_mapping ck))"
  then have "map_of (ck_label_mapping ck) unknown = None"
    by (simp add: map_of_eq_None_iff)
  then show "FudgeInference_init m t ck (ClassName unknown)
      = Inl (UnknownClassName unknown (map fst (ck_label_mapping ck)))"
    by (simp add: FudgeInference_init_def resolve_target_class_def)
next
  assume "\<not> (0 \<le> i \<and> i < ck_num_labels ck)"
  then show "FudgeInference_init m t ck (ClassIndex i)
      = Inl (TargetClassOutOfRange (ck_num_labels ck - 1))"
    by (simp add: FudgeInference_init_def resolve_target_class_def)
next
  assume "known \<in> set (map fst (ck_label_mapping ck))"
  then obtain c where c: "map_of (ck_label_mapping ck) known = Some c"
    by (metis map_of_eq_None_iff not_Some_eq set_map)
  then show "\<exists>c. map_of (ck_label_mapping ck) known = Some c
      \<and> resolve_target_class (ck_label_mapping ck) (ck_num_labels ck) (ClassName known) = Inr c"
    by (simp add: resolve_target_class_def)
  from c show "FudgeInference_init m t ck (ClassName known)
      = Inl (NameError ''AutoregressiveFudgeClassifier'')"
    by (simp add: FudgeInference_init_def resolve_target_class_def lookup_classifier)
next
  assume j: "0 \<le> j \<and> j < ck_num_labels ck"
  then show "resolve_target_class (ck_label_mapping ck) (ck_num_labels ck) (ClassIndex j) = Inr j"
    by (simp add: resolve_target_class_def)
  from j show "FudgeInference_init m t ck (ClassIndex j)
      = Inl (NameError ''AutoregressiveFudgeClassifier'')"
    by (simp add: FudgeInference_init_def resolve_target_class_def lookup_classifier)
qed

theorem construction_outcomes_witness:
  "FudgeInference_init ex_model ex_tokenizer ex_checkpoint (ClassName ''neutral'')
     = Inl (UnknownClassName ''neutral'' [''positive'', ''negative''])
   \<and> FudgeInference_init ex_model ex_tokenizer ex_checkpoint (ClassIndex 2)
     = Inl (TargetClassOutOfRange 1)
   \<and> resolve_target_class (ck_label_mapping ex_checkpoint) (ck_num_labels ex_checkpoint)
       (ClassName ''negative'') = Inr 1
   \<and> FudgeInference_init ex_model ex_tokenizer ex_checkpoint (ClassName ''negative'')
     = Inl (NameError ''AutoregressiveFudgeClassifier'')
   \<and> FudgeInference_init ex_model ex_tokenizer ex_checkpoint (ClassIndex 0)
     = Inl (NameError ''AutoregressiveFudgeClassifier'')"
  using construction_outcomes [where unknown = "''neutral''" and ck = ex_checkpoint and i = 2
      and known = "''negative''" and j = 0 and m = ex_model and t = ex_tokenizer]
  by (simp add: ex_checkpoint_def)

subsection \<open>Target class and generation\<close>

lemma fudge_scores_target_class:
  "fudge_scores (d\<lparr>target_class := c\<rparr>) toks cs = fudge_scores d toks cs"
  by (induction cs) (simp_all add: Let_def)

lemma base_distribution_target_class:
  "base_distribution T (d\<lparr>target_class := c\<rparr>) p toks = base_distribution T d p toks"
  by (simp add: base_distribution_def)

lemma combined_scores_target_class:
  "combined_scores T (d\<lparr>target_class := c\<rparr>) p toks = combined_scores T d p toks"
  by (simp add: combined_scores_def candidates_def base_distribution_target_class
      fudge_scores_target_class cong: sum.case_cong prod.case_cong)

lemma combined_distribution_target_class:
  "combined_distribution T (d\<lparr>target_class := c\<rparr>) p toks = combined_distribution T d p toks"
  by (simp add: combined_distribution_def combined_scores_target_class
      base_distribution_target_class cong: sum.case_cong)

lemma sample_next_target_class:
  "sample_next T (d\<lparr>target_class := c\<rparr>) p draw g toks = sample_next T d p draw g toks"
  by (simp add: sample_next_def combined_distribution_target_class)

lemma fudge_loop_target_class:
  "fudge_loop n T (d\<lparr>target_class := c\<rparr>) p draw g toks = fudge_loop n T d p draw g toks"
  by (induction n arbitrary: g toks)
    (simp_all add: sample_next_target_class cong: sum.case_cong prod.case_cong if_cong)

lemma generate_with_fudge_target_class:
  "generate_with_fudge T (d\<lparr>target_class := c\<rparr>) p draw g prompt
     = generate_with_fudge T d p draw g prompt"
  by (simp add: generate_with_fudge_def generate_tokens_def fudge_loop_target_class
      cong: sum.case_cong prod.case_cong)

text \<open>The auxiliary score of a candidate is channel 1 of the scorer's output.\<close>

lemma fudge_scores_channel:
  "fudge_scores d toks cs = Inr ss \<Longrightarrow>
     length ss = length cs \<and> (\<forall>i<length cs. ss ! i = fudge_model d (toks @ [cs ! i]) ! 1)"
proof (induction cs arbitrary: ss)
  case Nil
  then show ?case by simp
next
  case (Cons c cs)
  then show ?case
    by (auto simp: Let_def nth_Cons split: if_splits sum.splits nat.splits)
qed

text \<open>
  Claim C10. Two decoder objects that differ only in the field \<open>target_class\<close> behave
  alike under \<open>generate_with_fudge\<close>: for the same parameters, sampler, generator state
  and prompt the call has the same outcome (the same returned text, or the same
  exception), and in every decoding step the same token is drawn from the same
  generator state. The auxiliary scores are the same for both: each is output channel
  1 of the scorer on the sequence with the candidate appended.
\<close>

theorem generation_ignores_target_class:
  "generate_with_fudge T (d\<lparr>target_class := c1\<rparr>) p draw g prompt
     = generate_with_fudge T (d\<lparr>target_class := c2\<rparr>) p draw g prompt
   \<and> sample_next T (d\<lparr>target_class := c1\<rparr>) p draw g toks
     = sample_next T (d\<lparr>target_class := c2\<rparr>) p draw g toks
   \<and> (\<forall>cs ss. fudge_scores (d\<lparr>target_class := c1\<rparr>) toks cs = Inr ss \<longrightarrow>
          fudge_scores (d\<lparr>target_class := c2\<rparr>) toks cs = Inr ss
          \<and> (\<forall>i<length cs. ss ! i = fudge_model d (toks @ [cs ! i]) ! 1))"
proof -
  have "fudge_scores (d\<lparr>target_class := c2\<rparr>) toks cs = Inr ss
      \<and> (\<forall>i<length cs. ss ! i = fudge_model d (toks @ [cs ! i]) ! 1)"
    if "fudge_scores (d\<lparr>target_class := c1\<rparr>) toks cs = Inr ss" for cs ss
  proof -
    from that have "fudge_scores d toks cs = Inr ss"
      by (simp add: fudge_scores_target_class)
    with fudge_scores_channel [of d toks cs ss] show ?thesis
      by (simp add: fudge_scores_target_class)
  qed
  then show ?thesis
    by (simp add: generate_with_fudge_target_class sample_next_target_class)
qed

subsection \<open>The generation loop\<close>

lemma fudge_loop_Suc:
  "fudge_loop (Suc n) T d p draw g toks
     = (case sample_next T d p draw g toks of
          Inl e \<Rightarrow> Inl e
        | Inr (next_token, g') \<Rightarrow> Inl CatDimensionMismatch)"
  by (simp cong: sum.case_cong prod.case_cong)

theorem generation_ignores_target_class_witness:
  "generate_with_fudge lowest_first (ex_decoder\<lparr>target_class := 0\<rparr>)
       (ex_params\<lparr>max_length := 3\<rparr>) ex_draw [0, 2, 0] ''a''
     = generate_with_fudge lowest_first (ex_decoder\<lparr>target_class := 1\<rparr>)
         (ex_params\<lparr>max_length := 3\<rparr>) ex_draw [0, 2, 0] ''a''
   \<and> sample_next lowest_first (ex_decoder\<lparr>target_class := 1\<rparr>) (ex_params\<lparr>max_length := 3\<rparr>)
         ex_draw [0, 2, 0] [97] = Inr (0, [2, 0])
   \<and> fudge_scores (ex_decoder\<lparr>target_class := 1\<rparr>) [97] [0, 1, 2] = Inr [0, 0, 0]"
proof -
  note t = generation_ignores_target_class [where T = lowest_first and d = ex_decoder
      and ?c1.0 = 0 and ?c2.0 = 1 and p = "ex_params\<lparr>max_length := 3\<rparr>" and draw = ex_draw
      and g = "[0, 2, 0]" and prompt = "''a''" and toks = "[97]"]
  have d: "ex_decoder\<lparr>target_class := 0\<rparr> = ex_decoder"
    by (simp add: ex_decoder_def)
  have s: "sample_next lowest_first (ex_decoder\<lparr>target_class := 0\<rparr>) (ex_params\<lparr>max_length := 3\<rparr>)
         ex_draw [0, 2, 0] [97] = Inr (0, [2, 0])"
    unfolding d by (rule ex_sample_next) simp
  have f: "fudge_scores (ex_decoder\<lparr>target_class := 0\<rparr>) [97] [0, 1, 2] = Inr [0, 0, 0]"
    unfolding d using ex_fudge_scores [of "[97]" "[0, 1, 2]"] by simp
  from t have g: "generate_with_fudge lowest_first (ex_decoder\<lparr>target_class := 0\<rparr>)
       (ex_params\<lparr>max_length := 3\<rparr>) ex_draw [0, 2, 0] ''a''
     = generate_with_fudge lowest_first (ex_decoder\<lparr>target_class := 1\<rparr>)
         (ex_params\<lparr>max_length := 3\<rparr>) ex_draw [0, 2, 0] ''a''"
    by (rule conjunct1)
  from t s have s1: "sample_next lowest_first (ex_decoder\<lparr>target_class := 1\<rparr>)
      (ex_params\<lparr>max_length := 3\<rparr>) ex_draw [0, 2, 0] [97] = Inr (0, [2, 0])"
    by (simp only:)
  from t f have f1: "fudge_scores (ex_decoder\<lparr>target_class := 1\<rparr>) [97] [0, 1, 2] = Inr [0, 0, 0]"
    by blast
  show ?thesis
    by (intro conjI g s1 f1)
qed

text \<open>
  Claim C6, evaluated on the code. Whenever \<open>max_length\<close> is positive the call raises:
  if the first decoding step draws a token, the concatenation of line 172 raises a
  RuntimeError, because \<open>generated_tokens\<close> has two dimensions and \<open>next_token\<close> one.
  No token is ever appended. Only for \<open>max_length \<le> 0\<close> does the call return, with the
  decoded prompt.
\<close>

theorem generate_raises_at_first_append:
  "(0 < max_length p \<longrightarrow> (\<exists>e. generate_with_fudge T d p draw g prompt = Inl e))
   \<and> (0 < max_length p \<and> sample_next T d p draw g (encode (tok d) prompt) = Inr (t, g') \<longrightarrow>
        generate_with_fudge T d p draw g prompt = Inl CatDimensionMismatch)
   \<and> (max_length p \<le> 0 \<longrightarrow>
        generate_with_fudge T d p draw g prompt
          = Inr (decode (tok d) (encode (tok d) prompt), g))"
proof (intro conjI impI)
  assume "0 < max_length p"
  then obtain n where n: "nat (max_length p) = Suc n"
    by (cases "nat (max_length p)") auto
  show "\<exists>e. generate_with_fudge T d p draw g prompt = Inl e"
    by (cases "sample_next T d p draw g (encode (tok d) prompt)")
      (auto simp: generate_with_fudge_def generate_tokens_def n fudge_loop_Suc
        simp del: fudge_loop.simps(2))
next
  assume a: "0 < max_length p \<and> sample_next T d p draw g (encode (tok d) prompt) = Inr (t, g')"
  then obtain n where n: "nat (max_length p) = Suc n"
    by (cases "nat (max_length p)") auto
  from a show "generate_with_fudge T d p draw g prompt = Inl CatDimensionMismatch"
    by (simp add: generate_with_fudge_def generate_tokens_def n fudge_loop_Suc
        del: fudge_loop.simps(2))
next
  assume "max_length p \<le> 0"
  then show "generate_with_fudge T d p draw g prompt
      = Inr (decode (tok d) (encode (tok d) prompt), g)"
    by (simp add: generate_with_fudge_def generate_tokens_def)
qed

theorem generate_raises_at_first_append_witness:
  "sample_next lowest_first ex_decoder (ex_params\<lparr>max_length := 3\<rparr>) ex_draw [0, 2, 0]
       (encode (tok ex_decoder) ''a'') = Inr (0, [2, 0])
   \<and> generate_with_fudge lowest_first ex_decoder (ex_params\<lparr>max_length := 3\<rparr>) ex_draw [0, 2, 0] ''a''
       = Inl CatDimensionMismatch
   \<and> generate_with_fudge lowest_first ex_decoder (ex_params\<lparr>max_length := 0\<rparr>) ex_draw [0, 2, 0] ''a''
       = Inr (decode (tok ex_decoder) (encode (tok ex_decoder) ''a''), [0, 2, 0])"
proof -
  have s: "sample_next lowest_first ex_decoder (ex_params\<lparr>max_length := 3\<rparr>) ex_draw [0, 2, 0]
       (encode (tok ex_decoder) ''a'') = Inr (0, [2, 0])"
    by (simp add: ex_encode ex_sample_next)
  have m: "0 < max_length (ex_params\<lparr>max_length := 3\<rparr>)"
      "max_length (ex_params\<lparr>max_length := 0\<rparr>) \<le> 0"
    by simp_all
  from generate_raises_at_first_append [where p = "ex_params\<lparr>max_length := 3\<rparr>"
      and T = lowest_first and d = ex_decoder and draw = ex_draw and g = "[0, 2, 0]"
      and prompt = "''a''" and t = 0 and g' = "[2, 0]"]
    generate_raises_at_first_append [where p = "ex_params\<lparr>max_length := 0\<rparr>"
      and T = lowest_first and d = ex_decoder and draw = ex_draw and g = "[0, 2, 0]"
      and prompt = "''a''" and t = 0 and g' = "[2, 0]"]
    s m
  show ?thesis
    by blast
qed

subsection \<open>Candidates, fusion and the combined vector\<close>

text \<open>
  Claim C4. For every order the library may return on ties: in a decoding step whose
  base distribution \<open>base\<close> is computed (with \<open>top_k = None\<close>) at a non-zero
  temperature, and with a non-negative \<open>fudge_top_k\<close>, the candidate set has
  \<open>min(fudge_top_k, vocabulary size)\<close> distinct vocabulary positions; no position
  outside it has a larger base probability than a position inside it; and the recorded
  value of every candidate is its entry of \<open>base\<close>.
\<close>

theorem candidate_set:
  assumes "torch_order T"
    and "get_next_token_distribution T (model d) toks (temperature p) None (base_top_p p)
      = Inr base"
    and "temperature p \<noteq> 0"
    and "0 \<le> fudge_top_k p"
  shows "\<exists>cv ci. candidates T d p toks = Inr (cv, ci)
    \<and> length ci = min (nat (fudge_top_k p)) (length base)
    \<and> distinct ci \<and> set ci \<subseteq> {..<length base}
    \<and> cv = map ((!) base) ci
    \<and> (\<forall>i\<in>set ci. \<forall>j<length base. j \<notin> set ci \<longrightarrow> base ! j \<le> base ! i)"
proof -
  let ?k = "min (fudge_top_k p) (int (length base))"
  have c: "candidates T d p toks = topk T base ?k"
    using assms(2) by (simp add: candidates_def base_distribution_def)
  from assms(4) obtain cv ci where t: "topk T base ?k = Inr (cv, ci)"
    using topk_succeeds [of ?k base T] by auto
  have "length ci = min (nat (fudge_top_k p)) (length base)"
    using topk_props(1) [OF assms(1) t] assms(4) by simp
  moreover have "\<forall>i\<in>set ci. \<forall>j<length base. j \<notin> set ci \<longrightarrow> base ! j \<le> base ! i"
    using topk_dominates [OF assms(1) t] by blast
  ultimately show ?thesis
    using c t topk_props(2,3) [OF assms(1) t] topk_Inr(4) [OF t] by auto
qed

theorem candidate_set_witness:
  "get_next_token_distribution lowest_first (model ex_decoder) [97] (temperature ex_params) None
      (base_top_p ex_params) = Inr [4 / 7, 2 / 7, 1 / 7]
   \<and> temperature ex_params \<noteq> 0
   \<and> 0 \<le> fudge_top_k ex_params
   \<and> candidates lowest_first ex_decoder ex_params [97] = Inr ([4 / 7, 2 / 7, 1 / 7], [0, 1, 2])
   \<and> length [0, 1, 2 :: nat]
       = min (nat (fudge_top_k ex_params)) (length [4 / 7, 2 / 7, 1 / 7 :: real])"
proof -
  have b: "get_next_token_distribution lowest_first (model ex_decoder) [97] (temperature ex_params) None
      (base_top_p ex_params) = Inr [4 / 7, 2 / 7, 1 / 7]"
    using ex_base_distribution [of "[97]" ex_params] by (simp add: base_distribution_def)
  have t: "temperature ex_params \<noteq> 0"
    by (simp add: ex_params_def)
  have k: "0 \<le> fudge_top_k ex_params"
    by (simp add: ex_params_def)
  from candidate_set [OF torch_order_lowest_first b t k] b t k show ?thesis
    by (simp add: ex_candidates)
qed

text \<open>
  Claim C1. In a decoding step with non-zero temperatures, base distribution \<open>base\<close>,
  candidate positions \<open>ci\<close> and auxiliary scores \<open>fs\<close> (channel 1 of the scorer), the
  combined score of candidate \<open>i\<close> is
  \<open>(1 - lambda_weight) * base[ci[i]] + lambda_weight * fudge[i]\<close>, where \<open>base[ci[i]]\<close>
  is the entry of the full base distribution and \<open>fudge\<close> is the softmax of
  \<open>fs / fudge_temperature\<close>. With \<open>lambda_weight = 0\<close> the combined scores are the
  candidates' base probabilities, with \<open>lambda_weight = 1\<close> they are the softmax of the
  auxiliary scores.
\<close>

theorem fused_scores:
  assumes "base_distribution T d p toks = Inr base"
    and "candidates T d p toks = Inr (cv, ci)"
    and "fudge_scores d toks ci = Inr fs"
    and "temperature p \<noteq> 0" and "fudge_temperature p \<noteq> 0"
  shows "\<exists>cs. combined_scores T d p toks = Inr (ci, cs) \<and> length cs = length ci
    \<and> (\<forall>i<length ci.
          fs ! i = fudge_model d (toks @ [ci ! i]) ! 1
          \<and> fudge_distribution (fudge_temperature p) fs ! i
              = exp (fs ! i / fudge_temperature p)
                / (\<Sum>j = 0..<length ci. exp (fs ! j / fudge_temperature p))
          \<and> cs ! i = (1 - lambda_weight p) * base ! (ci ! i)
              + lambda_weight p * fudge_distribution (fudge_temperature p) fs ! i)
    \<and> (lambda_weight p = 0 \<longrightarrow> cs = map ((!) base) ci)
    \<and> (lambda_weight p = 1 \<longrightarrow> cs = fudge_distribution (fudge_temperature p) fs)"
proof -
  let ?fd = "fudge_distribution (fudge_temperature p) fs"
  let ?cs = "combine (lambda_weight p) cv ?fd"
  have t: "topk T base (min (fudge_top_k p) (int (length base))) = Inr (cv, ci)"
    using assms(1,2) by (simp add: candidates_def)
  have cv: "cv = map ((!) base) ci"
    by (rule topk_Inr(4) [OF t])
  have len: "length fs = length ci"
    and ch: "\<forall>i<length ci. fs ! i = fudge_model d (toks @ [ci ! i]) ! 1"
    using fudge_scores_channel [OF assms(3)] by simp_all
  have lfd: "length ?fd = length ci"
    by (simp add: fudge_distribution_def len)
  have cs: "combined_scores T d p toks = Inr (ci, ?cs)"
    using assms(2,3) by (simp add: combined_scores_def)
  have lcs: "length (combine lam cv ?fd) = length ci" for lam
    by (simp add: combine_def cv lfd)
  have nth: "combine lam cv ?fd ! i = (1 - lam) * base ! (ci ! i) + lam * ?fd ! i"
    if "i < length ci" for i lam
    using that by (simp add: combine_def cv lfd)
  have sm: "?fd ! i = exp (fs ! i / fudge_temperature p)
      / (\<Sum>j = 0..<length ci. exp (fs ! j / fudge_temperature p))" if "i < length ci" for i
  proof -
    have "map (\<lambda>s. Fin (s / fudge_temperature p)) fs
        = map Fin (map (\<lambda>s. s / fudge_temperature p) fs)"
      by simp
    then show ?thesis
      using that softmax_nth [of i "map (\<lambda>s. s / fudge_temperature p) fs"]
      by (simp add: fudge_distribution_def len del: map_map)
  qed
  have l0: "?cs = map ((!) base) ci" if "lambda_weight p = 0"
    using that by (intro nth_equalityI) (simp_all add: lcs nth)
  have l1: "?cs = ?fd" if "lambda_weight p = 1"
    using that by (intro nth_equalityI) (simp_all add: lcs lfd nth)
  from cs lcs ch nth sm l0 l1 show ?thesis
    by blast
qed

theorem fused_scores_witness:
  "(\<exists>cs. combined_scores lowest_first ex_decoder ex_params [97] = Inr ([0, 1, 2], cs)
      \<and> cs ! 0 = (1 - 1 / 2) * (4 / 7) + (1 / 2) * (1 / 3))
   \<and> combined_scores lowest_first ex_decoder (ex_params\<lparr>lambda_weight := 0\<rparr>) [97]
       = Inr ([0, 1, 2], [4 / 7, 2 / 7, 1 / 7])
   \<and> combined_scores lowest_first ex_decoder (ex_params\<lparr>lambda_weight := 1\<rparr>) [97]
       = Inr ([0, 1, 2], fudge_distribution 1 [0, 0, 0])"
proof -
  have b: "base_distribution lowest_first ex_decoder p [97] = Inr [4 / 7, 2 / 7, 1 / 7]"
    if "ex_settings p" for p
    using that by (intro ex_base_distribution) simp_all
  have c: "candidates lowest_first ex_decoder p [97] = Inr ([4 / 7, 2 / 7, 1 / 7], [0, 1, 2])"
    if "ex_settings p" for p
    using that by (intro ex_candidates) simp_all
  have f: "fudge_scores ex_decoder [97] [0, 1, 2] = Inr [0, 0, 0]"
    using ex_fudge_scores [of "[97]" "[0, 1, 2]"] by simp
  have t: "temperature (ex_params\<lparr>lambda_weight := l\<rparr>) \<noteq> 0"
      "fudge_temperature (ex_params\<lparr>lambda_weight := l\<rparr>) \<noteq> 0"
      "fudge_temperature (ex_params\<lparr>lambda_weight := l\<rparr>) = 1" for l
    by (simp_all add: ex_params_def)
  have t': "temperature ex_params \<noteq> 0" "fudge_temperature ex_params \<noteq> 0"
      "fudge_temperature ex_params = 1" "lambda_weight ex_params = 1 / 2"
    by (simp_all add: ex_params_def)
  have "\<exists>cs. combined_scores lowest_first ex_decoder ex_params [97] = Inr ([0, 1, 2], cs)
      \<and> cs ! 0 = (1 - 1 / 2) * (4 / 7) + (1 / 2) * (1 / 3)"
    using fused_scores [OF b c f t'(1,2)] by (auto simp: t' numeral_3_eq_3)
  moreover have "combined_scores lowest_first ex_decoder (ex_params\<lparr>lambda_weight := 0\<rparr>) [97]
       = Inr ([0, 1, 2], [4 / 7, 2 / 7, 1 / 7])"
    using fused_scores [OF b c f t(1,2), of 0] by auto
  moreover have "combined_scores lowest_first ex_decoder (ex_params\<lparr>lambda_weight := 1\<rparr>) [97]
       = Inr ([0, 1, 2], fudge_distribution 1 [0, 0, 0])"
    using fused_scores [OF b c f t(1,2), of 1] by (auto simp: t)
  ultimately show ?thesis
    by blast
qed

lemma retruncate_support:
  assumes "torch_order T" "retruncate T top_k full = Inr w"
  shows "length w = length full"
    and "\<And>j. j < length w \<Longrightarrow> w ! j \<noteq> 0 \<Longrightarrow> full ! j \<noteq> 0"
    and "\<And>k. top_k = Some k \<Longrightarrow>
          card {j. j < length w \<and> w ! j \<noteq> 0} \<le> min (nat k) (length full)"
proof -
  show len: "length w = length full"
    using assms by (auto simp: retruncate_def split: option.splits sum.splits)
  show "full ! j \<noteq> 0" if j: "j < length w" "w ! j \<noteq> 0" for j
  proof (cases top_k)
    case None
    with assms j show ?thesis by (simp add: retruncate_def)
  next
    case (Some k)
    with assms obtain tv ti where t: "topk T full (min k (int (length full))) = Inr (tv, ti)"
      and w: "w = scatter_zeros (length full) ti tv"
      by (auto simp: retruncate_def split: sum.splits)
    from j w have "j \<in> set ti"
      using scatter_zeros_support [of j "length full" ti tv] by simp
    then obtain q where q: "q < length ti" "ti ! q = j"
      by (auto simp: in_set_conv_nth)
    have "w ! (ti ! q) = tv ! q"
      unfolding w scatter_zeros_def
      using topk_props [OF assms(1) t] topk_Inr(5) [OF t] q j len
      by (intro scatter_nth_in) auto
    also have "tv ! q = full ! (ti ! q)"
      using topk_Inr(4) [OF t] q by simp
    finally show ?thesis
      using q j by simp
  qed
  show "card {j. j < length w \<and> w ! j \<noteq> 0} \<le> min (nat k) (length full)"
    if "top_k = Some k" for k
  proof -
    from that assms obtain tv ti where t: "topk T full (min k (int (length full))) = Inr (tv, ti)"
      and w: "w = scatter_zeros (length full) ti tv"
      by (auto simp: retruncate_def split: sum.splits)
    have "{j. j < length w \<and> w ! j \<noteq> 0} \<subseteq> set ti"
      using scatter_zeros_support [of _ "length full" ti tv] w by auto
    then have "card {j. j < length w \<and> w ! j \<noteq> 0} \<le> card (set ti)"
      by (intro card_mono) simp_all
    also have "\<dots> \<le> length ti"
      by (rule card_length)
    also have "\<dots> = nat (min k (int (length full)))"
      by (rule topk_props(1) [OF assms(1) t])
    also have "\<dots> \<le> min (nat k) (length full)"
      by (simp add: min_def) linarith
    finally show ?thesis .
  qed
qed

text \<open>
  Claim C5. For every order the library may return on ties: in a decoding step with
  base distribution \<open>base\<close> and candidate positions \<open>ci\<close>, the vector handed to the
  sampler is the re-truncation of the full-vocabulary vector built from the combined
  scores; that vector is zero at every position outside \<open>ci\<close>; and whenever the re-truncation returns a vector \<open>w\<close>, \<open>w\<close> has the length
  of the vocabulary, every position where \<open>w\<close> is non-zero is a candidate, and with
  \<open>base_top_k = k\<close> at most \<open>min(k, vocabulary size)\<close> positions are non-zero.
\<close>

theorem combined_support:
  assumes "torch_order T"
    and "base_distribution T d p toks = Inr base"
    and "combined_scores T d p toks = Inr (ci, cs)"
  shows "combined_distribution T d p toks
      = retruncate T (base_top_k p) (scatter_zeros (length base) ci cs)
    \<and> (\<forall>j<length base. j \<notin> set ci \<longrightarrow> scatter_zeros (length base) ci cs ! j = 0)
    \<and> (\<forall>w. combined_distribution T d p toks = Inr w \<longrightarrow>
          length w = length base
          \<and> {j. j < length w \<and> w ! j \<noteq> 0} \<subseteq> set ci
          \<and> (\<forall>k. base_top_k p = Some k \<longrightarrow>
                card {j. j < length w \<and> w ! j \<noteq> 0} \<le> min (nat k) (length base)))"
proof -
  let ?full = "scatter_zeros (length base) ci cs"
  have cd: "combined_distribution T d p toks = retruncate T (base_top_k p) ?full"
    using assms by (simp add: combined_distribution_def)
  have z: "\<forall>j<length base. j \<notin> set ci \<longrightarrow> ?full ! j = 0"
    using scatter_zeros_support [of _ "length base" ci cs] by blast
  have "length w = length base \<and> {j. j < length w \<and> w ! j \<noteq> 0} \<subseteq> set ci
      \<and> (\<forall>k. base_top_k p = Some k \<longrightarrow>
            card {j. j < length w \<and> w ! j \<noteq> 0} \<le> min (nat k) (length base))"
    if "combined_distribution T d p toks = Inr w" for w
  proof -
    from that cd have r: "retruncate T (base_top_k p) ?full = Inr w"
      by simp
    note s = retruncate_support [OF assms(1) r]
    have "{j. j < length w \<and> w ! j \<noteq> 0} \<subseteq> set ci"
      using s(1,2) z by auto
    with s(1,3) show ?thesis
      by simp
  qed
  with cd z show ?thesis
    by blast
qed

theorem combined_support_witness:
  "base_distribution lowest_first ex_decoder (ex_params\<lparr>base_top_k := Some 2\<rparr>) [97]
     = Inr [4 / 7, 2 / 7, 1 / 7]
   \<and> combined_scores lowest_first ex_decoder (ex_params\<lparr>base_top_k := Some 2\<rparr>) [97]
     = Inr ([0, 1, 2], [19 / 42, 13 / 42, 5 / 21])
   \<and> combined_distribution lowest_first ex_decoder (ex_params\<lparr>base_top_k := Some 2\<rparr>) [97]
     = Inr [19 / 42, 13 / 42, 0]
   \<and> {j. j < length [19 / 42, 13 / 42, 0 :: real] \<and> [19 / 42, 13 / 42, 0 :: real] ! j \<noteq> 0}
       \<subseteq> set [0, 1, 2]
   \<and> card {j. j < length [19 / 42, 13 / 42, 0 :: real] \<and> [19 / 42, 13 / 42, 0 :: real] ! j \<noteq> 0}
       \<le> min (nat 2) (length [4 / 7, 2 / 7, 1 / 7 :: real])"
proof -
  let ?p = "ex_params\<lparr>base_top_k := Some 2\<rparr>"
  have l: "lambda_weight ?p = 1 / 2" and k: "base_top_k ?p = Some 2"
    by (simp_all add: ex_params_def)
  have b: "base_distribution lowest_first ex_decoder ?p [97] = Inr [4 / 7, 2 / 7, 1 / 7]"
    by (rule ex_base_distribution) simp_all
  have c: "combined_scores lowest_first ex_decoder ?p [97] = Inr ([0, 1, 2], [19 / 42, 13 / 42, 5 / 21])"
    using l by (intro ex_combined_scores) simp_all
  have cd: "combined_distribution lowest_first ex_decoder ?p [97] = Inr [19 / 42, 13 / 42, 0]"
    by (simp add: combined_distribution_def b c k retruncate_def topk_def topk_indices_def
        argsort_desc_def upt3 scatter_zeros_def scatter_def)
  from combined_support [OF torch_order_lowest_first b c] cd k
  have "{j. j < length [19 / 42, 13 / 42, 0 :: real] \<and> [19 / 42, 13 / 42, 0 :: real] ! j \<noteq> 0}
       \<subseteq> set [0, 1, 2]
     \<and> card {j. j < length [19 / 42, 13 / 42, 0 :: real] \<and> [19 / 42, 13 / 42, 0 :: real] ! j \<noteq> 0}
       \<le> min (nat 2) (length [4 / 7, 2 / 7, 1 / 7 :: real])"
    by blast
  with b c cd show ?thesis
    by blast
qed

subsection \<open>Sampling\<close>

lemma multinomial_all_zero:
  assumes "\<forall>x\<in>set w. x = 0"
  shows "multinomial draw g w = Inl InvalidMultinomial"
proof -
  have "sum_list w = 0"
    using assms by (induction w) simp_all
  then show ?thesis
    by (simp add: multinomial_def)
qed

text \<open>
  Claim C9. In a decoding step whose combined vector after the re-truncation is zero at
  every position, sampling raises the RuntimeError of \<open>torch.multinomial\<close>: no token
  is returned, and the generation loop fails with that error at this step.
\<close>

theorem all_zero_weights_raise:
  assumes "combined_distribution T d p toks = Inr w"
    and "\<forall>x\<in>set w. x = 0"
  shows "sample_next T d p draw g toks = Inl InvalidMultinomial
    \<and> fudge_loop (Suc n) T d p draw g toks = Inl InvalidMultinomial"
  using assms by (simp add: sample_next_def multinomial_all_zero)

theorem all_zero_weights_raise_witness:
  "combined_distribution lowest_first ex_decoder (ex_params\<lparr>base_top_k := Some 0\<rparr>) [97] = Inr [0, 0, 0]
   \<and> sample_next lowest_first ex_decoder (ex_params\<lparr>base_top_k := Some 0\<rparr>) ex_draw [0] [97]
       = Inl InvalidMultinomial
   \<and> fudge_loop (Suc 0) lowest_first ex_decoder (ex_params\<lparr>base_top_k := Some 0\<rparr>) ex_draw [0] [97]
       = Inl InvalidMultinomial"
proof -
  have c: "combined_distribution lowest_first ex_decoder (ex_params\<lparr>base_top_k := Some 0\<rparr>) [97]
      = Inr [0, 0, 0]"
    by (rule ex_combined_distribution_0) (simp_all add: ex_params_def ex_settings_def)
  have z: "\<forall>x\<in>set [0, 0, 0 :: real]. x = 0"
    by simp
  from all_zero_weights_raise [OF c z, of ex_draw "[0]" 0] c show ?thesis
    by blast
qed

subsection \<open>The filters of the Distribution Builder\<close>

lemma exp_logit_nonneg: "0 \<le> exp_logit x"
  by (cases x) simp_all

lemma exp_logit_pos_iff: "0 < exp_logit x \<longleftrightarrow> x \<noteq> NegInf"
  by (cases x) simp_all

lemma sum_exp_logit_pos:
  assumes "j < length ys" "ys ! j \<noteq> NegInf"
  shows "0 < sum_list (map exp_logit ys)"
proof -
  have "ys ! j \<in> set ys"
    using assms(1) by simp
  then have "exp_logit (ys ! j) \<le> sum_list (map exp_logit ys)"
    by (intro member_le_sum_list) (auto simp: exp_logit_nonneg)
  with assms(2) show ?thesis
    using exp_logit_pos_iff [of "ys ! j"] by linarith
qed

lemma softmax_nonzero_iff:
  assumes "i < length ys" "j < length ys" "ys ! j \<noteq> NegInf"
  shows "softmax ys ! i \<noteq> 0 \<longleftrightarrow> ys ! i \<noteq> NegInf"
proof -
  have "0 < sum_list (map exp_logit ys)"
    using assms(2,3) by (rule sum_exp_logit_pos)
  with assms(1) show ?thesis
    using exp_logit_pos_iff [of "ys ! i"] exp_logit_nonneg [of "ys ! i"]
    by (auto simp: softmax_def Let_def)
qed

lemma sum_list_divide: "sum_list (map (\<lambda>e. e / c) es) = sum_list es / (c :: real)"
  by (induction es) (simp_all add: add_divide_distrib)

text \<open>With one finite score the softmax is a probability distribution.\<close>

lemma softmax_distribution:
  assumes "j < length ys" "ys ! j \<noteq> NegInf"
  shows "\<forall>x\<in>set (softmax ys). 0 \<le> x" "sum_list (softmax ys) = 1"
proof -
  let ?s = "sum_list (map exp_logit ys)"
  have s: "0 < ?s"
    using assms by (rule sum_exp_logit_pos)
  then show "\<forall>x\<in>set (softmax ys). 0 \<le> x"
    by (auto simp: softmax_def Let_def exp_logit_nonneg)
  have "sum_list (map (\<lambda>e. e / ?s) (map exp_logit ys)) = ?s / ?s"
    by (rule sum_list_divide)
  also have "\<dots> = 1"
    using s by simp
  finally show "sum_list (softmax ys) = 1"
    by (simp add: softmax_def Let_def del: map_map)
qed

lemma sorted_map_Fin: "sorted (map Fin xs) = sorted xs"
  by (induction xs) auto

lemma sort_map_Fin: "sort (map Fin xs) = map Fin (sort xs)"
  by (rule properties_for_sort) (simp_all add: sorted_map_Fin)

lemma kth_largest_map_Fin:
  assumes "1 \<le> k" "k \<le> length xs"
  shows "kth_largest (map Fin xs) k = Fin (kth_largest xs k)"
  using assms by (simp add: kth_largest_def sort_map_Fin rev_map)

lemma kth_largest_nth:
  assumes "descending_order xs a" "1 \<le> k" "k \<le> length xs"
  shows "kth_largest xs k = xs ! (a ! (k - 1))"
proof -
  have "rev (sort xs) ! (k - 1) = map ((!) xs) a ! (k - 1)"
    by (simp add: descending_order_values [OF assms(1)])
  also have "\<dots> = xs ! (a ! (k - 1))"
    using assms by (simp add: descending_orderD(1))
  finally show ?thesis
    by (simp add: kth_largest_def)
qed

lemma top_k_filter_Some:
  assumes "torch_order T" "1 \<le> k" "k \<le> int (length xs)"
  shows "top_k_filter T xs (Some k)
    = Inr (map (\<lambda>x. if x < kth_largest xs (nat k) then NegInf else x) xs)"
proof -
  let ?a = "topk_order T xs (nat k)"
  let ?idx = "take (nat k) ?a"
  let ?vals = "map ((!) xs) ?idx"
  have d: "descending_order xs ?a"
    by (rule torch_orderD(2) [OF assms(1)])
  have t: "topk_indices T xs k = Inr ?idx"
    using assms(2,3) by (simp add: topk_indices_def)
  have len: "length ?vals = nat k"
    using assms(2,3) by (simp add: descending_orderD(1) [OF d])
  then have ne: "?vals \<noteq> []"
    using assms(2) by auto
  have k1: "nat k - 1 < nat k" "nat k - 1 < length ?a"
    using assms(2,3) by (simp_all add: descending_orderD(1) [OF d])
  have "last ?vals = ?vals ! (nat k - 1)"
    using ne len by (simp add: last_conv_nth)
  also have "\<dots> = xs ! (?a ! (nat k - 1))"
    using k1 by (simp add: nth_take del: One_nat_def)
  also have "\<dots> = kth_largest xs (nat k)"
    using kth_largest_nth [OF d, of "nat k"] assms(2,3) by simp
  finally have "last ?vals = kth_largest xs (nat k)" .
  with t ne show ?thesis
    by (simp add: top_k_filter_def Let_def)
qed

text \<open>At least \<open>k\<close> entries reach the \<open>k\<close>-th largest entry.\<close>

lemma top_ranks_reach_kth:
  assumes "descending_order xs a" "1 \<le> k" "k \<le> length xs"
  shows "set (take k a) \<subseteq> {i. i < length xs \<and> kth_largest xs k \<le> xs ! i}"
proof
  fix i assume "i \<in> set (take k a)"
  then obtain q where q: "q < k" "i = a ! q"
    using assms by (auto simp: in_set_conv_nth descending_orderD(1))
  have "i < length xs"
    using q assms by (simp add: descending_order_nth_less)
  moreover have "xs ! (a ! (k - 1)) \<le> xs ! (a ! q)"
    using q assms by (intro descending_order_mono) simp_all
  ultimately show "i \<in> {i. i < length xs \<and> kth_largest xs k \<le> xs ! i}"
    using q kth_largest_nth [OF assms] by simp
qed

lemma card_reach_kth_ge:
  fixes xs :: "logit list"
  assumes "1 \<le> k" "k \<le> length xs"
  shows "k \<le> card {i. i < length xs \<and> kth_largest xs k \<le> xs ! i}"
proof -
  let ?a = "argsort_desc xs"
  note d = descending_order_argsort_desc [of xs]
  have "card (set (take k ?a)) = k"
    using assms descending_orderD(1,2) [OF d] by (simp add: distinct_card)
  moreover have "card (set (take k ?a))
      \<le> card {i. i < length xs \<and> kth_largest xs k \<le> xs ! i}"
    using top_ranks_reach_kth [OF d assms] by (intro card_mono) simp_all
  ultimately show ?thesis by simp
qed

lemma card_reach_kth_eq:
  fixes xs :: "logit list"
  assumes "1 \<le> k" "k \<le> length xs"
    and "k = length xs \<or> kth_largest xs (Suc k) < kth_largest xs k"
  shows "card {i. i < length xs \<and> kth_largest xs k \<le> xs ! i} = k"
proof -
  let ?a = "argsort_desc xs"
  note d = descending_order_argsort_desc [of xs]
  note dd = descending_orderD [OF d]
  have "{i. i < length xs \<and> kth_largest xs k \<le> xs ! i} \<subseteq> set (take k ?a)"
  proof
    fix i assume "i \<in> {i. i < length xs \<and> kth_largest xs k \<le> xs ! i}"
    then have i: "i < length xs" "kth_largest xs k \<le> xs ! i"
      by simp_all
    then have "i \<in> set ?a"
      by (simp add: dd(3))
    then obtain r where r: "r < length xs" "i = ?a ! r"
      by (auto simp: in_set_conv_nth dd(1))
    have "r < k"
    proof (rule ccontr)
      assume "\<not> r < k"
      then have kr: "k \<le> r" by simp
      with r assms(3) have lt: "kth_largest xs (Suc k) < kth_largest xs k" and "k < length xs"
        by auto
      have "xs ! (?a ! r) \<le> xs ! (?a ! k)"
        using kr r by (intro descending_order_mono [OF d]) simp_all
      moreover have "kth_largest xs (Suc k) = xs ! (?a ! k)"
        using kth_largest_nth [OF d, of "Suc k"] \<open>k < length xs\<close> by simp
      ultimately show False
        using lt i(2) r(2) by simp
    qed
    with r show "i \<in> set (take k ?a)"
      by (auto simp: in_set_conv_nth dd(1) intro!: exI [of _ r])
  qed
  with top_ranks_reach_kth [OF d assms(1,2)]
  have "{i. i < length xs \<and> kth_largest xs k \<le> xs ! i} = set (take k ?a)"
    by blast
  then show ?thesis
    using assms dd(1,2) by (simp add: distinct_card)
qed

lemma top_p_filter_None [simp]: "top_p_filter T xs None = Inr xs"
  by (simp add: top_p_filter_def)

lemma top_k_filter_None [simp]: "top_k_filter T xs None = Inr xs"
  by (simp add: top_k_filter_def)

lemma get_next_token_distribution_top_k:
  assumes "torch_order T" "m input_ids \<noteq> []" "1 \<le> k" "k \<le> int (length (last (m input_ids)))"
  shows "get_next_token_distribution T m input_ids t (Some k) None
    = Inr (softmax (map (\<lambda>x. if x < Fin (kth_largest (scaled_logits m input_ids t) (nat k))
                              then NegInf else x)
                     (map Fin (scaled_logits m input_ids t))))"
proof -
  let ?xs = "scaled_logits m input_ids t"
  have k: "1 \<le> nat k" "nat k \<le> length ?xs" "k \<le> int (length (map Fin ?xs))"
    using assms(3,4) by (simp_all add: scaled_logits_def)
  have "map (\<lambda>x. Fin (x / t)) (last (m input_ids)) = map Fin ?xs"
    by (simp add: scaled_logits_def)
  then show ?thesis
    using assms(2) top_k_filter_Some [OF assms(1,3) k(3)] kth_largest_map_Fin [OF k(1,2)]
    by (simp add: get_next_token_distribution_def Let_def del: map_map)
qed

text \<open>
  Claim C2, as the code has it. For every order the library may return on ties, a
  non-zero temperature and \<open>1 \<le> top_k \<le>\<close> vocabulary size (and no nucleus filter),
  the positions with non-zero probability are exactly those whose scaled score is at
  least the \<open>top_k\<close>-th largest scaled score. There are at least \<open>top_k\<close> of them, and
  exactly \<open>top_k\<close> when \<open>top_k\<close> is the vocabulary size or the \<open>(top_k + 1)\<close>-th
  largest score is strictly smaller than the \<open>top_k\<close>-th largest. Positions that tie
  with the \<open>top_k\<close>-th largest score all survive.
\<close>

theorem top_k_keeps_threshold:
  assumes "torch_order T" and "m input_ids \<noteq> []" and "t \<noteq> 0"
    and "1 \<le> k" and "k \<le> int (length (last (m input_ids)))"
  shows "\<exists>probs. get_next_token_distribution T m input_ids t (Some k) None = Inr probs
    \<and> length probs = length (last (m input_ids))
    \<and> support probs
        = {i. i < length probs
              \<and> kth_largest (scaled_logits m input_ids t) (nat k) \<le> scaled_logits m input_ids t ! i}
    \<and> nat k \<le> card (support probs)
    \<and> (nat k = length probs
          \<or> kth_largest (scaled_logits m input_ids t) (Suc (nat k))
              < kth_largest (scaled_logits m input_ids t) (nat k)
        \<longrightarrow> card (support probs) = nat k)"
proof -
  let ?xs = "scaled_logits m input_ids t"
  let ?ls = "map Fin ?xs"
  let ?kth = "kth_largest ?xs (nat k)"
  let ?ys = "map (\<lambda>x. if x < Fin ?kth then NegInf else x) ?ls"
  let ?probs = "softmax ?ys"
  let ?S = "{i. i < length ?xs \<and> ?kth \<le> ?xs ! i}"
  have n: "length ?xs = length (last (m input_ids))"
    by (simp add: scaled_logits_def)
  have k: "1 \<le> nat k" "nat k \<le> length ?xs"
    using assms(4,5) by (simp_all add: n)
  have kl: "1 \<le> nat k" "nat k \<le> length ?ls"
    using k by simp_all
  have res: "get_next_token_distribution T m input_ids t (Some k) None = Inr ?probs"
    using get_next_token_distribution_top_k [of T m input_ids k t] assms(1,2,4,5) by simp
  have len: "length ?probs = length ?xs"
    by simp
  have kF: "kth_largest ?ls (nat k) = Fin ?kth"
    by (rule kth_largest_map_Fin [OF k])
  have S: "{i. i < length ?ls \<and> kth_largest ?ls (nat k) \<le> ?ls ! i} = ?S"
    by (auto simp: kF)
  have ys: "?ys ! i \<noteq> NegInf \<longleftrightarrow> ?kth \<le> ?xs ! i" if "i < length ?xs" for i
    using that by (simp add: not_less)
  have "nat k \<le> card ?S"
    using card_reach_kth_ge [OF kl] by (simp only: S)
  with k(1) have "card ?S \<noteq> 0"
    by linarith
  then have "?S \<noteq> {}"
    by (rule contrapos_nn) (simp only: card.empty)
  then obtain j where j: "j < length ?xs" "?kth \<le> ?xs ! j"
    by blast
  then have surv: "j < length ?ys" "?ys ! j \<noteq> NegInf"
    using ys [of j] by simp_all
  have sup: "support ?probs = {i. i < length ?probs \<and> ?kth \<le> ?xs ! i}"
  proof -
    have "?probs ! i \<noteq> 0 \<longleftrightarrow> ?kth \<le> ?xs ! i" if "i < length ?xs" for i
    proof -
      have "i < length ?ys" using that by simp
      from softmax_nonzero_iff [OF this surv] ys [OF that] show ?thesis
        by blast
    qed
    then show ?thesis
      unfolding support_def len by blast
  qed
  have ge: "nat k \<le> card (support ?probs)"
    unfolding sup len by (rule \<open>nat k \<le> card ?S\<close>)
  have eq: "nat k = length ?probs \<or> kth_largest ?xs (Suc (nat k)) < ?kth
      \<longrightarrow> card (support ?probs) = nat k"
  proof
    assume a: "nat k = length ?probs \<or> kth_largest ?xs (Suc (nat k)) < ?kth"
    have "nat k = length ?ls \<or> kth_largest ?ls (Suc (nat k)) < kth_largest ?ls (nat k)"
    proof (cases "nat k = length ?xs")
      case True
      then show ?thesis by simp
    next
      case False
      with a k have lt: "kth_largest ?xs (Suc (nat k)) < ?kth" and "Suc (nat k) \<le> length ?xs"
        by auto
      then have "kth_largest ?ls (Suc (nat k)) = Fin (kth_largest ?xs (Suc (nat k)))"
        by (intro kth_largest_map_Fin) simp_all
      with lt kF show ?thesis
        by simp
    qed
    from card_reach_kth_eq [OF kl this] show "card (support ?probs) = nat k"
      unfolding sup len by (simp only: S)
  qed
  have len': "length ?probs = length (last (m input_ids))"
    using len n by simp
  show ?thesis
    by (rule exI [of _ ?probs]) (intro conjI res len' sup ge eq)
qed

text \<open>
  With the scores \<open>[0, 0, 0]\<close> and \<open>top_k = 1\<close> all three positions keep probability
  \<open>1/3\<close>: three survivors, not one.
\<close>

theorem top_k_ties_counterexample:
  "get_next_token_distribution lowest_first ex_tie_model [97] 1 (Some 1) None
     = Inr [1 / 3, 1 / 3, 1 / 3]
   \<and> (1 :: int) \<le> int (length (last (ex_tie_model [97])))
   \<and> length (filter (\<lambda>x. x \<noteq> 0) [1 / 3, 1 / 3, 1 / 3 :: real]) = 3"
  by (simp add: get_next_token_distribution_def ex_tie_model_def top_k_filter_def
      topk_indices_def top_p_filter_def argsort_desc_def upt3 softmax_def)

lemma ex_sc: "scaled_logits ex_model [97] 1 = [ln 4, ln 2, 0]"
  by (simp add: scaled_logits_def ex_model_def)

theorem top_k_keeps_threshold_witness:
  "get_next_token_distribution lowest_first ex_model [97] 1 (Some 2) None = Inr [2 / 3, 1 / 3, 0]
   \<and> kth_largest (scaled_logits ex_model [97] 1) 3 < kth_largest (scaled_logits ex_model [97] 1) 2
   \<and> card (support [2 / 3, 1 / 3, 0]) = 2"
proof -
  have res: "get_next_token_distribution lowest_first ex_model [97] 1 (Some 2) None
      = Inr [2 / 3, 1 / 3, 0]"
    by (simp add: get_next_token_distribution_def ex_model_def top_k_filter_def topk_indices_def
        top_p_filter_def argsort_desc_def upt3 softmax_def)
  have gap: "kth_largest (scaled_logits ex_model [97] 1) 3
      < kth_largest (scaled_logits ex_model [97] 1) 2"
    by (simp add: ex_sc kth_largest_def)
  have h: "ex_model [97] \<noteq> []" "(1 :: real) \<noteq> 0" "(1 :: int) \<le> 2"
      "2 \<le> int (length (last (ex_model [97])))"
    by (simp_all add: ex_model_def)
  have s3: "Suc (nat 2) = 3"
    by simp
  from top_k_keeps_threshold [of lowest_first ex_model "[97]" 1 2] torch_order_lowest_first h
  obtain probs
    where p: "get_next_token_distribution lowest_first ex_model [97] 1 (Some 2) None = Inr probs"
    and c: "nat 2 = length probs
        \<or> kth_largest (scaled_logits ex_model [97] 1) (Suc (nat 2))
            < kth_largest (scaled_logits ex_model [97] 1) (nat 2)
      \<longrightarrow> card (support probs) = nat 2"
    by blast
  from p res have "probs = [2 / 3, 1 / 3, 0]"
    by simp
  moreover from gap have "kth_largest (scaled_logits ex_model [97] 1) (Suc (nat 2))
      < kth_largest (scaled_logits ex_model [97] 1) (nat 2)"
    by (simp only: s3) simp
  ultimately have "card (support [2 / 3, 1 / 3, 0]) = 2"
    using c by simp
  with res gap show ?thesis
    by blast
qed

subsection \<open>Failures of the Distribution Builder\<close>

lemma length_cumsum_from [simp]: "length (cumsum_from acc xs) = length xs"
  by (induction xs arbitrary: acc) simp_all

lemma length_cumsum [simp]: "length (cumsum xs) = length xs"
  by (simp add: cumsum_def)

lemma top_p_filter_empty:
  assumes "torch_order T"
  shows "top_p_filter T [] (Some p) = Inl IndexError"
proof -
  have "length (sort_order T []) = 0"
    using descending_orderD(1) [OF torch_orderD(1) [OF assms, of "[]"]] by simp
  then have "sort_order T [] = []"
    by simp
  then show ?thesis
    by (simp add: top_p_filter_def softmax_def cumsum_def)
qed

lemma top_k_filter_out_of_range:
  assumes "k < 1 \<or> int (length xs) < k"
  shows "top_k_filter T xs (Some k) = Inl (if k = 0 then IndexError else TopkOutOfRange)"
  using assms by (auto simp: top_k_filter_def topk_indices_def)

lemma top_p_filter_succeeds:
  assumes "torch_order T" "xs \<noteq> []"
  shows "\<exists>ys. top_p_filter T xs top_p = Inr ys \<and> length ys = length xs"
proof (cases top_p)
  case None
  then show ?thesis by simp
next
  case (Some p)
  let ?a = "sort_order T xs"
  let ?over = "map (\<lambda>c. p < c) (cumsum (softmax (map ((!) xs) ?a)))"
  have la: "length ?a = length xs"
    by (rule descending_orderD(1) [OF torch_orderD(1) [OF assms(1)]])
  then have len: "length ?over = length xs"
    by simp
  with assms(2) have "length ?over \<noteq> 0"
    by simp
  then have "?over \<noteq> []"
    by (simp only: length_0_conv not_False_eq_True)
  with Some len show ?thesis
    by (simp add: top_p_filter_def Let_def)
qed

subsection \<open>The nucleus filter\<close>

lemma cumsum_from_nth:
  "i < length xs \<Longrightarrow> cumsum_from acc xs ! i = acc + sum_list (take (Suc i) xs)"
proof (induction xs arbitrary: acc i)
  case Nil
  then show ?case by simp
next
  case (Cons x xs)
  then show ?case by (cases i) simp_all
qed

lemma cumsum_nth: "i < length xs \<Longrightarrow> cumsum xs ! i = (\<Sum>q = 0..<Suc i. xs ! q)"
proof -
  assume i: "i < length xs"
  then have "cumsum xs ! i = sum_list (take (Suc i) xs)"
    by (simp add: cumsum_def cumsum_from_nth)
  also have "\<dots> = (\<Sum>q = 0..<length (take (Suc i) xs). take (Suc i) xs ! q)"
    by (rule sum_list_sum_nth)
  also have "\<dots> = (\<Sum>q = 0..<Suc i. xs ! q)"
  proof -
    from i have "length (take (Suc i) xs) = Suc i"
      by simp
    then show ?thesis
      by (intro sum.cong) simp_all
  qed
  finally show ?thesis .
qed

lemma sum_list_map_perm:
  fixes f :: "'a \<Rightarrow> real"
  assumes "mset xs = mset ys"
  shows "sum_list (map f xs) = sum_list (map f ys)"
proof -
  have "sum_mset (mset (map f xs)) = sum_mset (mset (map f ys))"
    using assms by simp
  then show ?thesis
    by (simp only: sum_mset_sum_list)
qed

text \<open>Sorting the scores permutes their softmax.\<close>

lemma softmax_sorted_nth:
  assumes "descending_order xs a" "q < length xs"
  shows "softmax (map ((!) xs) a) ! q = softmax xs ! (a ! q)"
proof -
  have "mset (map ((!) xs) a) = mset xs"
    by (simp add: descending_order_values [OF assms(1)])
  then have s: "sum_list (map exp_logit (map ((!) xs) a)) = sum_list (map exp_logit xs)"
    by (rule sum_list_map_perm)
  have "a ! q < length xs"
    by (rule descending_order_nth_less [OF assms])
  with assms s show ?thesis
    by (simp add: softmax_def Let_def descending_orderD(1) del: map_map)
qed

lemma shifted_mask_nth:
  assumes "r < length over"
  shows "(False # butlast over) ! r = (0 < r \<and> over ! (r - 1))"
proof (cases r)
  case 0
  then show ?thesis by simp
next
  case (Suc r')
  with assms have "r' < length (butlast over)"
    by simp
  with Suc show ?thesis
    by (simp add: nth_butlast)
qed

lemma top_p_filter_Some:
  assumes "torch_order T" "xs \<noteq> []"
  shows "\<exists>ys. top_p_filter T xs (Some p) = Inr ys \<and> length ys = length xs
    \<and> (\<forall>r<length xs. ys ! (sort_order T xs ! r)
          = (if 0 < r \<and> p < (\<Sum>q = 0..<r. softmax xs ! (sort_order T xs ! q)) then NegInf
             else xs ! (sort_order T xs ! r)))"
proof -
  let ?a = "sort_order T xs"
  let ?sp = "softmax (map ((!) xs) ?a)"
  let ?over = "map (\<lambda>c. p < c) (cumsum ?sp)"
  let ?rem = "False # butlast ?over"
  let ?mask = "scatter ?rem ?a ?rem"
  let ?ys = "map2 (\<lambda>r x. if r then NegInf else x) ?mask xs"
  have d: "descending_order xs ?a"
    by (rule torch_orderD(1) [OF assms(1)])
  note dd = descending_orderD [OF d]
  have lo: "length ?over = length xs"
    by (simp add: dd(1))
  with assms(2) have "length ?over \<noteq> 0"
    by simp
  then have ne: "?over \<noteq> []"
    by (simp only: length_0_conv not_False_eq_True)
  have lr: "length ?rem = length xs"
    using lo assms(2) by (simp del: length_map length_cumsum length_softmax)
  have res: "top_p_filter T xs (Some p) = Inr ?ys"
    using ne by (simp add: top_p_filter_def Let_def)
  have ly: "length ?ys = length xs"
    using lr by simp
  have nth: "?ys ! (?a ! r)
      = (if 0 < r \<and> p < (\<Sum>q = 0..<r. softmax xs ! (?a ! q)) then NegInf else xs ! (?a ! r))"
    if r: "r < length xs" for r
  proof -
    have ar: "?a ! r < length xs"
      by (rule descending_order_nth_less [OF d r])
    have m: "?mask ! (?a ! r) = ?rem ! r"
      using r ar lr by (intro scatter_nth_in) (simp_all add: dd(1,2))
    have "?rem ! r = (0 < r \<and> ?over ! (r - 1))"
      using r lo by (intro shifted_mask_nth) simp
    also have "\<dots> = (0 < r \<and> p < (\<Sum>q = 0..<r. softmax xs ! (?a ! q)))"
    proof (cases r)
      case 0
      then show ?thesis by simp
    next
      case (Suc r')
      with r have r': "r' < length ?sp"
        by (simp add: dd(1))
      have "cumsum ?sp ! r' = (\<Sum>q = 0..<Suc r'. ?sp ! q)"
        by (rule cumsum_nth [OF r'])
      also have "\<dots> = (\<Sum>q = 0..<Suc r'. softmax xs ! (?a ! q))"
        using r Suc by (intro sum.cong refl softmax_sorted_nth [OF d]) simp
      finally have "cumsum ?sp ! r' = (\<Sum>q = 0..<r. softmax xs ! (?a ! q))"
        using Suc by simp
      moreover have "?over ! r' = (p < cumsum ?sp ! r')"
        using r' by simp
      ultimately show ?thesis
        using Suc by simp
    qed
    finally have rem: "?rem ! r = (0 < r \<and> p < (\<Sum>q = 0..<r. softmax xs ! (?a ! q)))" .
    have "?ys ! (?a ! r) = (if ?mask ! (?a ! r) then NegInf else xs ! (?a ! r))"
      using ar lr by simp
    with m rem show ?thesis
      by simp
  qed
  from res ly nth show ?thesis
    by blast
qed

text \<open>Each filter leaves a finite score when it is given one.\<close>

lemma top_p_keeps_finite:
  assumes "torch_order T" "top_p_filter T xs top_p = Inr ys" "j < length xs" "xs ! j \<noteq> NegInf"
  shows "\<exists>i<length ys. ys ! i \<noteq> NegInf"
proof (cases top_p)
  case None
  with assms show ?thesis by auto
next
  case (Some p)
  let ?a = "sort_order T xs"
  have d: "descending_order xs ?a"
    by (rule torch_orderD(1) [OF assms(1)])
  from assms(3) have ne: "xs \<noteq> []" and pos: "0 < length xs"
    by auto
  from top_p_filter_Some [OF assms(1) ne, of p] assms(2) Some
  have len: "length ys = length xs" and y0: "ys ! (?a ! 0) = xs ! (?a ! 0)"
    using pos by auto
  from assms(3) have "j \<in> set ?a"
    by (simp add: descending_orderD(3) [OF d])
  then obtain r where r: "r < length xs" "j = ?a ! r"
    by (auto simp: in_set_conv_nth descending_orderD(1) [OF d])
  have "xs ! (?a ! r) \<le> xs ! (?a ! 0)"
    using r by (intro descending_order_mono [OF d]) simp_all
  with assms(4) r have "xs ! (?a ! 0) \<noteq> NegInf"
    by (cases "xs ! (?a ! 0)"; cases "xs ! j") auto
  with y0 len descending_order_nth_less [OF d pos] show ?thesis
    by auto
qed

lemma top_k_keeps_finite:
  assumes "torch_order T" "top_k_filter T (map Fin xs) top_k = Inr ys" "xs \<noteq> []"
  shows "length ys = length xs \<and> (\<exists>i<length ys. ys ! i \<noteq> NegInf)"
proof (cases top_k)
  case None
  with assms show ?thesis by auto
next
  case (Some k)
  let ?ls = "map Fin xs"
  have k: "1 \<le> k" "k \<le> int (length ?ls)"
  proof -
    have "\<not> (k < 1 \<or> int (length ?ls) < k)"
    proof
      assume "k < 1 \<or> int (length ?ls) < k"
      from top_k_filter_out_of_range [OF this, of T] assms(2) Some show False
        by simp
    qed
    then show "1 \<le> k" "k \<le> int (length ?ls)"
      by auto
  qed
  let ?a = "topk_order T ?ls (nat k)"
  have d: "descending_order ?ls ?a"
    by (rule torch_orderD(2) [OF assms(1)])
  have kn: "1 \<le> nat k" "nat k \<le> length ?ls"
    using k by simp_all
  let ?i = "?a ! (nat k - 1)"
  have i: "?i < length ?ls"
    using kn by (intro descending_order_nth_less [OF d]) simp
  have kth: "kth_largest ?ls (nat k) = ?ls ! ?i"
    by (rule kth_largest_nth [OF d kn])
  from top_k_filter_Some [OF assms(1) k] assms(2) Some
  have ys: "ys = map (\<lambda>x. if x < kth_largest ?ls (nat k) then NegInf else x) ?ls"
    by simp
  then have "ys ! ?i = ?ls ! ?i"
    using i kth by simp
  with i have "ys ! ?i \<noteq> NegInf"
    by simp
  with ys i show ?thesis
    by auto
qed

text \<open>
  Claim C7, as the code has it. \<open>get_next_token_distribution\<close> has no check of the
  temperature. For every order the library may return on ties:
  \<^item> it raises an IndexError when the model returns no row of scores, which is the
    case for an empty input sequence when the model returns one row per input position;
  \<^item> given a row of scores, it raises when \<open>top_k\<close> is set but not between 1 and the
    vocabulary size (an IndexError for \<open>top_k = 0\<close>, the RuntimeError of \<open>torch.topk\<close>
    otherwise), and when \<open>top_p\<close> is set over an empty vocabulary;
  \<^item> given a row of scores over a non-empty vocabulary, \<open>top_k\<close> absent or between 1
    and the vocabulary size, and any non-zero temperature, negative ones included, it
    returns a probability distribution over the vocabulary: non-negative entries that
    sum to 1.
\<close>

theorem distribution_errors:
  assumes "torch_order T"
  shows "(length (m input_ids) = length input_ids \<and> input_ids = [] \<longrightarrow>
      get_next_token_distribution T m input_ids t top_k top_p = Inl IndexError)
   \<and> (m input_ids \<noteq> [] \<and> top_k = Some k \<and> (k < 1 \<or> int (length (last (m input_ids))) < k) \<longrightarrow>
      get_next_token_distribution T m input_ids t top_k top_p
        = Inl (if k = 0 then IndexError else TopkOutOfRange))
   \<and> (m input_ids \<noteq> [] \<and> last (m input_ids) = [] \<and> top_k = None \<and> top_p = Some p \<longrightarrow>
      get_next_token_distribution T m input_ids t top_k top_p = Inl IndexError)
   \<and> (m input_ids \<noteq> [] \<and> last (m input_ids) \<noteq> [] \<and> t \<noteq> 0
        \<and> (\<forall>k. top_k = Some k \<longrightarrow> 1 \<le> k \<and> k \<le> int (length (last (m input_ids)))) \<longrightarrow>
      (\<exists>probs. get_next_token_distribution T m input_ids t top_k top_p = Inr probs
         \<and> length probs = length (last (m input_ids))
         \<and> (\<forall>x\<in>set probs. 0 \<le> x) \<and> sum_list probs = 1))"
proof (intro conjI impI)
  assume "length (m input_ids) = length input_ids \<and> input_ids = []"
  then have "m input_ids = []"
    by auto
  then show "get_next_token_distribution T m input_ids t top_k top_p = Inl IndexError"
    by (simp add: get_next_token_distribution_def)
next
  assume a: "m input_ids \<noteq> [] \<and> top_k = Some k
      \<and> (k < 1 \<or> int (length (last (m input_ids))) < k)"
  let ?logits = "map (\<lambda>x. Fin (x / t)) (last (m input_ids))"
  from a have "k < 1 \<or> int (length ?logits) < k"
    by simp
  from top_k_filter_out_of_range [OF this, of T] a
  show "get_next_token_distribution T m input_ids t top_k top_p
      = Inl (if k = 0 then IndexError else TopkOutOfRange)"
    by (simp add: get_next_token_distribution_def Let_def)
next
  assume "m input_ids \<noteq> [] \<and> last (m input_ids) = [] \<and> top_k = None \<and> top_p = Some p"
  then show "get_next_token_distribution T m input_ids t top_k top_p = Inl IndexError"
    by (simp add: get_next_token_distribution_def Let_def top_p_filter_empty [OF assms])
next
  assume a: "m input_ids \<noteq> [] \<and> last (m input_ids) \<noteq> [] \<and> t \<noteq> 0
      \<and> (\<forall>k. top_k = Some k \<longrightarrow> 1 \<le> k \<and> k \<le> int (length (last (m input_ids))))"
  let ?xs = "map (\<lambda>x. x / t) (last (m input_ids))"
  let ?logits = "map (\<lambda>x. Fin (x / t)) (last (m input_ids))"
  have lg: "?logits = map Fin ?xs"
    by simp
  have ne: "?xs \<noteq> []"
    using a by simp
  obtain ys where ys: "top_k_filter T ?logits top_k = Inr ys"
  proof (cases top_k)
    case None
    then show ?thesis
      using that by simp
  next
    case (Some k)
    with a have "1 \<le> k" "k \<le> int (length ?logits)"
      by simp_all
    from top_k_filter_Some [OF assms this] Some that show ?thesis
      by simp
  qed
  from top_k_keeps_finite [OF assms ys [unfolded lg] ne]
  obtain i where ly: "length ys = length ?xs" and i: "i < length ys" "ys ! i \<noteq> NegInf"
    by blast
  from i have "ys \<noteq> []"
    by auto
  from top_p_filter_succeeds [OF assms this, of top_p] obtain zs
    where zs: "top_p_filter T ys top_p = Inr zs" "length zs = length ys"
    by blast
  from top_p_keeps_finite [OF assms zs(1) i] obtain j where j: "j < length zs" "zs ! j \<noteq> NegInf"
    by blast
  have res: "get_next_token_distribution T m input_ids t top_k top_p = Inr (softmax zs)"
    using a ys zs(1) by (simp add: get_next_token_distribution_def Let_def)
  have "length (softmax zs) = length (last (m input_ids))"
    using zs(2) ly by simp
  with res softmax_distribution [OF j]
  show "\<exists>probs. get_next_token_distribution T m input_ids t top_k top_p = Inr probs
      \<and> length probs = length (last (m input_ids))
      \<and> (\<forall>x\<in>set probs. 0 \<le> x) \<and> sum_list probs = 1"
    by blast
qed

lemma ex_nucleus:
  "get_next_token_distribution lowest_first ex_model [97] 1 None (Some (3 / 5))
     = Inr [2 / 3, 1 / 3, 0]"
  by (simp add: get_next_token_distribution_def ex_model_def top_k_filter_def top_p_filter_def
      softmax_def argsort_desc_def upt3 cumsum_def scatter_def Let_def)

theorem distribution_errors_witness:
  "get_next_token_distribution lowest_first ex_model [] (- 1) (Some 2) (Some (3 / 5))
     = Inl IndexError
   \<and> get_next_token_distribution lowest_first ex_model [97] (- 1) (Some 4) (Some (3 / 5))
     = Inl TopkOutOfRange
   \<and> get_next_token_distribution lowest_first ex_empty_model [97] (- 1) None (Some (3 / 5))
     = Inl IndexError
   \<and> (\<exists>probs. get_next_token_distribution lowest_first ex_model [97] (- 1) (Some 2) (Some (3 / 5))
          = Inr probs
        \<and> length probs = 3 \<and> sum_list probs = 1)"
proof -
  note T = torch_order_lowest_first
  have "get_next_token_distribution lowest_first ex_model [] (- 1) (Some 2) (Some (3 / 5))
      = Inl IndexError"
    using distribution_errors [OF T, of ex_model "[]" "- 1" "Some 2" "Some (3 / 5)"]
    by (simp add: ex_model_def)
  moreover
  have "get_next_token_distribution lowest_first ex_model [97] (- 1) (Some 4) (Some (3 / 5))
      = Inl TopkOutOfRange"
    using distribution_errors [OF T, of ex_model "[97]" "- 1" "Some 4" "Some (3 / 5)" 4]
    by (simp add: ex_model_def)
  moreover
  have "get_next_token_distribution lowest_first ex_empty_model [97] (- 1) None (Some (3 / 5))
      = Inl IndexError"
    using distribution_errors [OF T, of ex_empty_model "[97]" "- 1" None "Some (3 / 5)" _ "3 / 5"]
    by (simp add: ex_empty_model_def)
  moreover
  have "\<exists>probs. get_next_token_distribution lowest_first ex_model [97] (- 1) (Some 2) (Some (3 / 5))
          = Inr probs
        \<and> length probs = 3 \<and> sum_list probs = 1"
    using distribution_errors [OF T, of ex_model "[97]" "- 1" "Some 2" "Some (3 / 5)" 2]
    by (auto simp: ex_model_def numeral_3_eq_3)
  ultimately show ?thesis
    by blast
qed

text \<open>
  At temperature \<open>-1\<close> the function returns the softmax of the negated scores; at
  temperature 1 with a non-empty input it raises for \<open>top_k = 4\<close> over three tokens,
  and for a nucleus filter over an empty vocabulary.
\<close>

theorem negative_temperature_counterexample:
  "get_next_token_distribution lowest_first ex_model [97] (- 1) None None
     = Inr [1 / 7, 2 / 7, 4 / 7]
   \<and> \<not> 0 < (- 1 :: real)
   \<and> get_next_token_distribution lowest_first ex_model [97] 1 (Some 4) None = Inl TopkOutOfRange
   \<and> get_next_token_distribution lowest_first ex_empty_model [97] 1 None (Some (1 / 2))
     = Inl IndexError"
  by (simp add: get_next_token_distribution_def ex_model_def ex_empty_model_def softmax_def
      exp_minus top_k_filter_def topk_indices_def top_p_filter_def argsort_desc_def cumsum_def)

text \<open>
  Claim C3, as the code has it. For every order \<open>torch.sort\<close> may return on ties, a
  non-zero temperature and a non-empty vocabulary (and no top-k filter), the position at
  rank \<open>r\<close> of the order that the sort returns gets probability zero exactly when
  \<open>r > 0\<close> and the cumulative probability of the ranks before \<open>r\<close>, the position's
  own probability not included, exceeds \<open>top_p\<close>. The position at rank 0 always keeps
  non-zero probability, so the support is never empty.
\<close>

theorem nucleus_keeps_crossing_rank:
  assumes "torch_order T"
    and "m input_ids \<noteq> []" and "last (m input_ids) \<noteq> []" and "t \<noteq> 0"
  shows "\<exists>probs. get_next_token_distribution T m input_ids t None (Some p) = Inr probs
    \<and> length probs = length (last (m input_ids))
    \<and> (\<forall>r<length probs.
          probs ! (sort_order T (map Fin (scaled_logits m input_ids t)) ! r) = 0
          \<longleftrightarrow> 0 < r
              \<and> p < (\<Sum>q = 0..<r. softmax (map Fin (scaled_logits m input_ids t))
                                      ! (sort_order T (map Fin (scaled_logits m input_ids t)) ! q)))
    \<and> probs ! (sort_order T (map Fin (scaled_logits m input_ids t)) ! 0) \<noteq> 0
    \<and> support probs \<noteq> {}"
proof -
  let ?sc = "scaled_logits m input_ids t"
  let ?xs = "map Fin ?sc"
  let ?a = "sort_order T ?xs"
  have d: "descending_order ?xs ?a"
    by (rule torch_orderD(1) [OF assms(1)])
  have n: "length ?xs = length (last (m input_ids))"
    by (simp add: scaled_logits_def)
  with assms(3) have "length ?xs \<noteq> 0"
    by simp
  then have ne: "?xs \<noteq> []"
    by (simp only: length_0_conv not_False_eq_True)
  from top_p_filter_Some [OF assms(1) ne, of p] obtain ys
    where ys: "top_p_filter T ?xs (Some p) = Inr ys" "length ys = length ?xs"
      and nth: "\<forall>r<length ?xs. ys ! (?a ! r)
          = (if 0 < r \<and> p < (\<Sum>q = 0..<r. softmax ?xs ! (?a ! q)) then NegInf
             else ?xs ! (?a ! r))"
    by blast
  let ?probs = "softmax ys"
  have "map (\<lambda>x. Fin (x / t)) (last (m input_ids)) = ?xs"
    by (simp add: scaled_logits_def)
  then have res: "get_next_token_distribution T m input_ids t None (Some p) = Inr ?probs"
    using assms(2) ys(1) by (simp add: get_next_token_distribution_def Let_def del: map_map)
  have len: "length ?probs = length (last (m input_ids))"
    using ys(2) n by simp
  have pos: "0 < length ?xs"
    using ne by simp
  have ar: "?a ! r < length ys" if "r < length ?xs" for r
    using descending_order_nth_less [OF d that] ys(2) by simp
  have fin: "?xs ! (?a ! r) \<noteq> NegInf" if "r < length ?xs" for r
    using descending_order_nth_less [OF d that] by simp
  have y0: "ys ! (?a ! 0) \<noteq> NegInf"
    using nth pos fin [OF pos] by simp
  have iff: "?probs ! (?a ! r) = 0
      \<longleftrightarrow> 0 < r \<and> p < (\<Sum>q = 0..<r. softmax ?xs ! (?a ! q))" if r: "r < length ?probs" for r
  proof -
    from r have r': "r < length ?xs"
      using ys(2) by simp
    have "?probs ! (?a ! r) \<noteq> 0 \<longleftrightarrow> ys ! (?a ! r) \<noteq> NegInf"
      by (rule softmax_nonzero_iff [OF ar [OF r'] ar [OF pos] y0])
    moreover have "ys ! (?a ! r) = NegInf
        \<longleftrightarrow> 0 < r \<and> p < (\<Sum>q = 0..<r. softmax ?xs ! (?a ! q))"
      using nth r' fin [OF r'] by simp
    ultimately show ?thesis
      by blast
  qed
  have p0: "?probs ! (?a ! 0) \<noteq> 0"
    using softmax_nonzero_iff [OF ar [OF pos] ar [OF pos] y0] y0 by simp
  have "?a ! 0 \<in> support ?probs"
    using p0 ar [OF pos] by (simp add: support_def)
  then have sup: "support ?probs \<noteq> {}"
    by blast
  have all: "\<forall>r<length ?probs. ?probs ! (?a ! r) = 0
      \<longleftrightarrow> 0 < r \<and> p < (\<Sum>q = 0..<r. softmax ?xs ! (?a ! q))"
    using iff by blast
  show ?thesis
    by (rule exI [of _ ?probs]) (intro conjI res len all p0 sup)
qed

lemma ex_order: "argsort_desc [Fin (ln 4), Fin (ln 2), Fin 0] = [0, 1, 2]"
  by (simp add: argsort_desc_def upt3)

theorem nucleus_keeps_crossing_rank_witness:
  "get_next_token_distribution lowest_first ex_model [97] 1 None (Some (3 / 5))
     = Inr [2 / 3, 1 / 3, 0]
   \<and> sort_order lowest_first (map Fin (scaled_logits ex_model [97] 1)) = [0, 1, 2]
   \<and> 3 / 5 < (\<Sum>q = 0..<2. softmax (map Fin (scaled_logits ex_model [97] 1))
                  ! (sort_order lowest_first (map Fin (scaled_logits ex_model [97] 1)) ! q))
   \<and> \<not> 3 / 5 < (\<Sum>q = 0..<1. softmax (map Fin (scaled_logits ex_model [97] 1))
                  ! (sort_order lowest_first (map Fin (scaled_logits ex_model [97] 1)) ! q))
   \<and> support [2 / 3, 1 / 3, 0] \<noteq> {}"
proof -
  let ?sc = "scaled_logits ex_model [97] 1"
  let ?full = "softmax (map Fin ?sc)"
  let ?a = "sort_order lowest_first (map Fin ?sc)"
  have h: "ex_model [97] \<noteq> []" "last (ex_model [97]) \<noteq> []" "(1 :: real) \<noteq> 0"
    by (simp_all add: ex_model_def)
  have ord': "argsort_desc (map Fin ?sc) = [0, 1, 2]"
    by (simp add: ex_sc ex_order)
  then have ord: "?a = [0, 1, 2]"
    by simp
  from nucleus_keeps_crossing_rank [of lowest_first ex_model "[97]" 1 "3 / 5"]
    torch_order_lowest_first h
  obtain probs
    where p: "get_next_token_distribution lowest_first ex_model [97] 1 None (Some (3 / 5))
        = Inr probs"
    and r: "\<forall>r<length probs. probs ! (?a ! r) = 0
        \<longleftrightarrow> 0 < r \<and> 3 / 5 < (\<Sum>q = 0..<r. ?full ! (?a ! q))"
    and s: "support probs \<noteq> {}"
    by blast
  from p have probs: "probs = [2 / 3, 1 / 3, 0]"
    by (simp add: ex_nucleus)
  have r2: "probs ! (?a ! 2) = 0 \<longleftrightarrow> 0 < (2 :: nat) \<and> 3 / 5 < (\<Sum>q = 0..<2. ?full ! (?a ! q))"
    using r probs by simp
  have r1: "probs ! (?a ! 1) = 0 \<longleftrightarrow> 0 < (1 :: nat) \<and> 3 / 5 < (\<Sum>q = 0..<1. ?full ! (?a ! q))"
    using r probs by simp
  have "probs ! (?a ! 2) = 0" "probs ! (?a ! 1) \<noteq> 0"
    by (simp_all add: probs ord')
  with r2 r1 have "3 / 5 < (\<Sum>q = 0..<2. ?full ! (?a ! q))"
      "\<not> 3 / 5 < (\<Sum>q = 0..<1. ?full ! (?a ! q))"
    by simp_all
  with ex_nucleus ord s probs show ?thesis
    by blast
qed

text \<open>
  With probabilities \<open>[4/7, 2/7, 1/7]\<close> and \<open>top_p = 3/5\<close> the position at rank 1 has
  the inclusive cumulative probability \<open>6/7 > 3/5\<close> and is kept: it is the first
  position to cross the threshold. The three scores differ, so the order of the sort is
  determined.
\<close>

theorem nucleus_inclusive_counterexample:
  "get_next_token_distribution lowest_first ex_model [97] 1 None (Some (3 / 5))
     = Inr [2 / 3, 1 / 3, 0]
   \<and> sort_order lowest_first (map Fin (scaled_logits ex_model [97] 1)) = [0, 1, 2]
   \<and> cumsum (softmax (map Fin (scaled_logits ex_model [97] 1))) = [4 / 7, 6 / 7, 1]
   \<and> (3 / 5 :: real) < [4 / 7, 6 / 7, 1] ! 1
   \<and> [2 / 3, 1 / 3, 0 :: real] ! ([0, 1, 2] ! 1) \<noteq> 0"
  by (simp add: ex_nucleus ex_sc ex_order softmax_def cumsum_def)

end
